theory Spec2Isabelle
  imports Complex_Main "HOL-Library.AList"
begin

section \<open>JavaScript values\<close>

text \<open>
  The values that cross the HTTP and the localStorage boundary are JSON values. A JavaScript
  number is modelled as an exact rational: arithmetic is exact, and the rounding, the
  infinities and the NaN of IEEE doubles are outside the model (a NaN result of
  \<open>parseInt\<close> is the value \<open>None\<close>). \<open>undefined\<close> is \<open>None\<close> of \<open>json option\<close>.
  A string is a list of 8-bit characters.
\<close>

datatype json =
    JNull
  | JBool bool
  | JNum rat
  | JStr string
  | JArr "json list"
  | JObj "(string \<times> json) list"

datatype js_error = TypeError | SyntaxError | BSONError | MongoError

text \<open>ToBoolean: \<open>!v\<close> is \<open>\<not> truthy v\<close>.\<close>

fun truthy :: "json option \<Rightarrow> bool" where
  "truthy None = False"
| "truthy (Some JNull) = False"
| "truthy (Some (JBool b)) = b"
| "truthy (Some (JNum r)) = (r \<noteq> 0)"
| "truthy (Some (JStr s)) = (s \<noteq> [])"
| "truthy (Some (JArr xs)) = True"
| "truthy (Some (JObj kvs)) = True"

text \<open>
  \<open>v.k\<close> for a value that is neither \<open>null\<close> nor \<open>undefined\<close>: an own property of an
  object, \<open>length\<close> of an array or a string, \<open>undefined\<close> otherwise.
\<close>

fun property :: "json \<Rightarrow> string \<Rightarrow> json option" where
  "property (JObj kvs) k = map_of kvs k"
| "property (JArr xs) k = (if k = ''length'' then Some (JNum (of_nat (length xs))) else None)"
| "property (JStr s) k = (if k = ''length'' then Some (JNum (of_nat (length s))) else None)"
| "property v k = None"

text \<open>\<open>v.k\<close> for any value: reading a property of \<open>null\<close> or \<open>undefined\<close> throws.\<close>

fun get :: "json option \<Rightarrow> string \<Rightarrow> js_error + json option" where
  "get None k = Inl TypeError"
| "get (Some JNull) k = Inl TypeError"
| "get (Some v) k = Inr (property v k)"

subsection \<open>Number to string\<close>

definition digit_char :: "nat \<Rightarrow> char" where
  "digit_char d = ''0123456789abcdef'' ! d"

function show_nat :: "nat \<Rightarrow> string" where
  "show_nat n = (if n < 10 then [digit_char n] else show_nat (n div 10) @ [digit_char (n mod 10)])"
  by pat_completeness auto
termination
  by (relation "measure id") auto

declare show_nat.simps [simp del]

text \<open>The number of decimal places of a non-negative rational (at most \<open>fuel\<close>).\<close>

fun frac_places :: "nat \<Rightarrow> rat \<Rightarrow> nat" where
  "frac_places 0 a = 0"
| "frac_places (Suc fuel) a =
     (if a = of_int \<lfloor>a\<rfloor> then 0 else Suc (frac_places fuel (a * 10)))"

function trailing_zeros :: "nat \<Rightarrow> nat" where
  "trailing_zeros m =
     (if m \<noteq> 0 \<and> m mod 10 = 0 then Suc (trailing_zeros (m div 10)) else 0)"
  by pat_completeness auto
termination
  by (relation "measure id") auto

declare trailing_zeros.simps [simp del]

text \<open>
  Number::toString of ECMA-262 for radix 10: with \<open>s\<close> the significant digits of the
  number, \<open>k\<close> their count and \<open>n\<close> the position of the decimal point, the number is
  written in plain notation for \<open>-6 < n \<le> 21\<close> and with an exponent otherwise. A
  rational with no finite decimal expansion is not a JavaScript number; its digits are cut
  off by the fuel.
\<close>

definition format_decimal :: "string \<Rightarrow> int \<Rightarrow> string" where
  "format_decimal s n =
     (let k = int (length s) in
      if k \<le> n \<and> n \<le> 21 then s @ replicate (nat (n - k)) CHR ''0''
      else if 0 < n \<and> n \<le> 21 then take (nat n) s @ ''.'' @ drop (nat n) s
      else if - 6 < n \<and> n \<le> 0 then ''0.'' @ replicate (nat (- n)) CHR ''0'' @ s
      else (if k = 1 then s else take 1 s @ ''.'' @ drop 1 s) @ ''e''
           @ (if 0 \<le> n - 1 then ''+'' else ''-'') @ show_nat (nat \<bar>n - 1\<bar>))"

definition decimal_places :: "rat \<Rightarrow> nat" where
  "decimal_places a = frac_places (nat (snd (quotient_of a))) a"

definition Number_toString :: "rat \<Rightarrow> string" where
  "Number_toString r =
    (if r = 0 then ''0'' else
     let a = \<bar>r\<bar>;
         f = decimal_places a;
         M = nat \<lfloor>a * 10 ^ f\<rfloor>;
         z = trailing_zeros M;
         s = show_nat (M div 10 ^ z)
     in (if r < 0 then ''-'' else []) @ format_decimal s (int (length s) + int z - int f))"

text \<open>The decimal expansion of the rational is finite: the digits printed are all of it.\<close>

definition js_number :: "rat \<Rightarrow> bool" where
  "js_number r =
     (let a = \<bar>r\<bar>; f = decimal_places a in a * 10 ^ f = of_int \<lfloor>a * 10 ^ f\<rfloor>)"

subsection \<open>ToString, String(v) and template literals\<close>

fun ToString :: "json \<Rightarrow> string" and join_elems :: "json list \<Rightarrow> string" where
  "ToString JNull = ''null''"
| "ToString (JBool b) = (if b then ''true'' else ''false'')"
| "ToString (JNum r) = Number_toString r"
| "ToString (JStr s) = s"
| "ToString (JArr xs) = join_elems xs"
| "ToString (JObj kvs) = ''[object Object]''"
| "join_elems [] = []"
| "join_elems (x # xs) =
     (if x = JNull then [] else ToString x) @ (if xs = [] then [] else '','' @ join_elems xs)"

definition String_of :: "json option \<Rightarrow> string" where
  "String_of v = (case v of None \<Rightarrow> ''undefined'' | Some x \<Rightarrow> ToString x)"

subsection \<open>parseInt, Math.max, Math.round\<close>

text \<open>The ASCII part of StrWhiteSpaceChar: TAB, LF, VT, FF, CR and SP.\<close>

definition is_ws :: "char \<Rightarrow> bool" where
  "is_ws c = (let n = (of_char c :: nat) in (9 \<le> n \<and> n \<le> 13) \<or> n = 32)"

definition digit_of :: "char \<Rightarrow> nat option" where
  "digit_of c =
     (let n = (of_char c :: nat) in
      if 48 \<le> n \<and> n \<le> 57 then Some (n - 48)
      else if 97 \<le> n \<and> n \<le> 122 then Some (n - 87)
      else if 65 \<le> n \<and> n \<le> 90 then Some (n - 55)
      else None)"

definition radix_digit :: "nat \<Rightarrow> char \<Rightarrow> bool" where
  "radix_digit R c = (case digit_of c of None \<Rightarrow> False | Some d \<Rightarrow> d < R)"

definition is_hex :: "char \<Rightarrow> bool" where
  "is_hex c = radix_digit 16 c"

definition digits_value :: "nat \<Rightarrow> string \<Rightarrow> nat" where
  "digits_value R ds = foldl (\<lambda>acc c. acc * R + (case digit_of c of None \<Rightarrow> 0 | Some d \<Rightarrow> d)) 0 ds"

text \<open>
  \<open>parseInt(string)\<close> with no radix: leading white space is skipped, a sign is read, a
  \<open>0x\<close> prefix selects radix 16, and the longest prefix of digits is the value; with no
  digit the result is NaN (\<open>None\<close>).
\<close>

definition parseInt_string :: "string \<Rightarrow> int option" where
  "parseInt_string str =
     (let s = dropWhile is_ws str;
          neg = (take 1 s = ''-'');
          s1 = (if take 1 s = ''-'' \<or> take 1 s = ''+'' then drop 1 s else s);
          hex = (take 2 s1 = ''0x'' \<or> take 2 s1 = ''0X'');
          R = (if hex then 16 else 10);
          s2 = (if hex then drop 2 s1 else s1);
          ds = takeWhile (radix_digit R) s2
      in if ds = [] then None
         else Some ((if neg then - 1 else 1) * int (digits_value R ds)))"

definition parseInt :: "json option \<Rightarrow> int option" where
  "parseInt v = parseInt_string (String_of v)"

text \<open>\<open>x || 1\<close> for a number \<open>x\<close>: NaN and 0 are falsy.\<close>

definition or_1 :: "int option \<Rightarrow> int" where
  "or_1 x = (case x of None \<Rightarrow> 1 | Some n \<Rightarrow> if n = 0 then 1 else n)"

text \<open>\<open>Math.round\<close> rounds to the nearest integer, a half towards \<open>+\<infinity>\<close>.\<close>

definition Math_round :: "rat \<Rightarrow> int" where
  "Math_round x = \<lfloor>x + 1 / 2\<rfloor>"

subsection \<open>String methods\<close>

definition trim :: "string \<Rightarrow> string" where
  "trim s = rev (dropWhile is_ws (rev (dropWhile is_ws s)))"

definition lower_char :: "char \<Rightarrow> char" where
  "lower_char c =
     (let n = (of_char c :: nat) in if 65 \<le> n \<and> n \<le> 90 then char_of (n + 32) else c)"

definition toLowerCase :: "string \<Rightarrow> string" where
  "toLowerCase s = map lower_char s"

text \<open>\<open>v.trim()\<close>: only a string has the method; on any other value the call throws.\<close>

definition trim_method :: "json option \<Rightarrow> js_error + string" where
  "trim_method v = (case v of Some (JStr s) \<Rightarrow> Inr (trim s) | _ \<Rightarrow> Inl TypeError)"


section \<open>JSON.stringify\<close>

definition bslash :: char where "bslash = CHR 0x5C"
definition dquote :: char where "dquote = CHR 0x22"

definition unicode_escape :: "nat \<Rightarrow> string" where
  "unicode_escape n =
     [bslash, CHR ''u'', digit_char (n div 4096 mod 16), digit_char (n div 256 mod 16),
      digit_char (n div 16 mod 16), digit_char (n mod 16)]"

text \<open>QuoteJSONString: the two-character escapes, \<open>\u00XX\<close> for the other control characters.\<close>

definition quote_char :: "char \<Rightarrow> string" where
  "quote_char c =
     (let n = (of_char c :: nat) in
      if n = 8 then [bslash, CHR ''b'']
      else if n = 9 then [bslash, CHR ''t'']
      else if n = 10 then [bslash, CHR ''n'']
      else if n = 12 then [bslash, CHR ''f'']
      else if n = 13 then [bslash, CHR ''r'']
      else if n = 34 then [bslash, dquote]
      else if n = 92 then [bslash, bslash]
      else if n < 32 then unicode_escape n
      else [c])"

definition QuoteJSONString :: "string \<Rightarrow> string" where
  "QuoteJSONString s = [dquote] @ concat (map quote_char s) @ [dquote]"

fun JSON_stringify :: "json \<Rightarrow> string"
  and stringify_elems :: "json list \<Rightarrow> string"
  and stringify_props :: "(string \<times> json) list \<Rightarrow> string" where
  "JSON_stringify JNull = ''null''"
| "JSON_stringify (JBool b) = (if b then ''true'' else ''false'')"
| "JSON_stringify (JNum r) = Number_toString r"
| "JSON_stringify (JStr s) = QuoteJSONString s"
| "JSON_stringify (JArr xs) = ''['' @ stringify_elems xs @ '']''"
| "JSON_stringify (JObj kvs) = ''{'' @ stringify_props kvs @ ''}''"
| "stringify_elems [] = []"
| "stringify_elems (x # xs) =
     JSON_stringify x @ (if xs = [] then [] else '','' @ stringify_elems xs)"
| "stringify_props [] = []"
| "stringify_props (kv # kvs) =
     QuoteJSONString (fst kv) @ '':'' @ JSON_stringify (snd kv) @
     (if kvs = [] then [] else '','' @ stringify_props kvs)"

section \<open>JSON.parse\<close>

text \<open>JSON white space: space, TAB, LF and CR.\<close>

definition is_json_ws :: "char \<Rightarrow> bool" where
  "is_json_ws c = (c = CHR '' '' \<or> c = CHR 0x09 \<or> c = CHR 0x0A \<or> c = CHR 0x0D)"

definition skip_ws :: "string \<Rightarrow> string" where
  "skip_ws s = dropWhile is_json_ws s"

definition is_digit :: "char \<Rightarrow> bool" where
  "is_digit c = radix_digit 10 c"

text \<open>
  A JSON number: an optional minus, an integer part with no leading zero, an optional
  fraction and an optional exponent. Each part gives what it read and the rest of the
  input; the number is the value and the rest.
\<close>

definition parse_int_part :: "string \<Rightarrow> (nat \<times> string) option" where
  "parse_int_part s =
     (let ip = (if take 1 s = ''0'' then ''0'' else takeWhile is_digit s)
      in if ip = [] then None else Some (digits_value 10 ip, drop (length ip) s))"

definition parse_frac_part :: "string \<Rightarrow> ((nat \<times> nat) \<times> string) option" where
  "parse_frac_part s =
     (if take 1 s = ''.''
      then (let fp = takeWhile is_digit (drop 1 s)
            in if fp = [] then None
               else Some ((digits_value 10 fp, length fp), drop (1 + length fp) s))
      else Some ((0, 0), s))"

definition parse_exp_part :: "string \<Rightarrow> ((bool \<times> nat) \<times> string) option" where
  "parse_exp_part s =
     (if take 1 s = ''e'' \<or> take 1 s = ''E''
      then (let s1 = drop 1 s;
                s2 = (if take 1 s1 = ''-'' \<or> take 1 s1 = ''+'' then drop 1 s1 else s1);
                ep = takeWhile is_digit s2
            in if ep = [] then None
               else Some ((take 1 s1 = ''-'', digits_value 10 ep), drop (length ep) s2))
      else Some ((False, 0), s))"

definition parse_unsigned :: "string \<Rightarrow> (rat \<times> string) option" where
  "parse_unsigned s =
     (case parse_int_part s of
        None \<Rightarrow> None
      | Some (i, s1) \<Rightarrow>
         (case parse_frac_part s1 of
            None \<Rightarrow> None
          | Some ((f, places), s2) \<Rightarrow>
             (case parse_exp_part s2 of
                None \<Rightarrow> None
              | Some ((exp_neg, e), rest) \<Rightarrow>
                  Some ((of_nat i + of_nat f / 10 ^ places) *
                        (if exp_neg then 1 / 10 ^ e else 10 ^ e), rest))))"

definition parse_number :: "string \<Rightarrow> (rat \<times> string) option" where
  "parse_number s =
     (let neg = (take 1 s = ''-'') in
      case parse_unsigned (if neg then drop 1 s else s) of
        None \<Rightarrow> None
      | Some (v, rest) \<Rightarrow> Some (if neg then - v else v, rest))"

text \<open>
  The characters of a JSON string after the opening quote, up to the closing quote. A code
  unit above 7F written as \<open>\uXXXX\<close> is kept as its UTF-8 bytes.
\<close>

definition unescape :: "char \<Rightarrow> char option" where
  "unescape e =
     (if e = dquote then Some dquote
      else if e = bslash then Some bslash
      else if e = CHR ''/'' then Some CHR ''/''
      else if e = CHR ''b'' then Some (CHR 0x08)
      else if e = CHR ''f'' then Some (CHR 0x0C)
      else if e = CHR ''n'' then Some (CHR 0x0A)
      else if e = CHR ''r'' then Some (CHR 0x0D)
      else if e = CHR ''t'' then Some (CHR 0x09)
      else None)"

definition utf8_encode :: "nat \<Rightarrow> string" where
  "utf8_encode n =
     (if n < 128 then [char_of n]
      else if n < 2048 then [char_of (192 + n div 64), char_of (128 + n mod 64)]
      else [char_of (224 + n div 4096), char_of (128 + n div 64 mod 64), char_of (128 + n mod 64)])"

fun parse_chars :: "string \<Rightarrow> string \<Rightarrow> (string \<times> string) option" where
  "parse_chars [] acc = None"
| "parse_chars (c # r) acc =
     (if c = dquote then Some (acc, r)
      else if c = bslash then
        (case r of
           [] \<Rightarrow> None
         | e # r' \<Rightarrow>
            if e = CHR ''u'' then
              (case r' of
                 h1 # h2 # h3 # h4 # r'' \<Rightarrow>
                   if list_all is_hex [h1, h2, h3, h4]
                   then parse_chars r'' (acc @ utf8_encode (digits_value 16 [h1, h2, h3, h4]))
                   else None
               | _ \<Rightarrow> None)
            else (case unescape e of None \<Rightarrow> None | Some ch \<Rightarrow> parse_chars r' (acc @ [ch])))
      else if (of_char c :: nat) < 32 then None
      else parse_chars r (acc @ [c]))"

text \<open>
  Adding a property while an object is built: a key that is present keeps its place and
  gets the new value; a new key that is an array index goes before the keys that are not
  and after the smaller indices; any other new key goes last.
\<close>

definition is_index :: "string \<Rightarrow> bool" where
  "is_index k = (k \<noteq> [] \<and> list_all is_digit k \<and> (k = ''0'' \<or> take 1 k \<noteq> ''0'') \<and>
                 digits_value 10 k < 4294967295)"

fun insert_index :: "string \<Rightarrow> json \<Rightarrow> (string \<times> json) list \<Rightarrow> (string \<times> json) list" where
  "insert_index k v [] = [(k, v)]"
| "insert_index k v (kv # kvs) =
     (if is_index (fst kv) \<and> digits_value 10 (fst kv) < digits_value 10 k
      then kv # insert_index k v kvs else (k, v) # kv # kvs)"

definition obj_put :: "string \<Rightarrow> json \<Rightarrow> (string \<times> json) list \<Rightarrow> (string \<times> json) list" where
  "obj_put k v kvs =
     (if is_index k \<and> map_of kvs k = None then insert_index k v kvs else AList.update k v kvs)"

fun parse_value :: "nat \<Rightarrow> string \<Rightarrow> (json \<times> string) option"
  and parse_elements :: "nat \<Rightarrow> string \<Rightarrow> json list \<Rightarrow> (json \<times> string) option"
  and parse_members :: "nat \<Rightarrow> string \<Rightarrow> (string \<times> json) list \<Rightarrow> (json \<times> string) option" where
  "parse_value 0 s = None"
| "parse_value (Suc n) s =
     (case skip_ws s of
        [] \<Rightarrow> None
      | c # r \<Rightarrow>
         if c = CHR ''['' then
           (if take 1 (skip_ws r) = '']'' then Some (JArr [], drop 1 (skip_ws r))
            else parse_elements n r [])
         else if c = CHR ''{'' then
           (if take 1 (skip_ws r) = ''}'' then Some (JObj [], drop 1 (skip_ws r))
            else parse_members n r [])
         else if c = dquote then
           (case parse_chars r [] of None \<Rightarrow> None | Some (str, rest) \<Rightarrow> Some (JStr str, rest))
         else if take 4 (c # r) = ''true'' then Some (JBool True, drop 4 (c # r))
         else if take 5 (c # r) = ''false'' then Some (JBool False, drop 5 (c # r))
         else if take 4 (c # r) = ''null'' then Some (JNull, drop 4 (c # r))
         else (case parse_number (c # r) of None \<Rightarrow> None | Some (x, rest) \<Rightarrow> Some (JNum x, rest)))"
| "parse_elements 0 s acc = None"
| "parse_elements (Suc n) s acc =
     (case parse_value n s of
        None \<Rightarrow> None
      | Some (v, rest) \<Rightarrow>
         (case skip_ws rest of
            [] \<Rightarrow> None
          | c # r \<Rightarrow>
             if c = CHR '','' then parse_elements n r (acc @ [v])
             else if c = CHR '']'' then Some (JArr (acc @ [v]), r)
             else None))"
| "parse_members 0 s acc = None"
| "parse_members (Suc n) s acc =
     (case skip_ws s of
        [] \<Rightarrow> None
      | q # r \<Rightarrow>
         if q = dquote then
           (case parse_chars r [] of
              None \<Rightarrow> None
            | Some (k, rest) \<Rightarrow>
               (case skip_ws rest of
                  [] \<Rightarrow> None
                | c # r2 \<Rightarrow>
                   if c = CHR '':'' then
                     (case parse_value n r2 of
                        None \<Rightarrow> None
                      | Some (v, rest2) \<Rightarrow>
                         (case skip_ws rest2 of
                            [] \<Rightarrow> None
                          | d # r3 \<Rightarrow>
                             if d = CHR '','' then parse_members n r3 (obj_put k v acc)
                             else if d = CHR ''}'' then Some (JObj (obj_put k v acc), r3)
                             else None))
                   else None))
         else None)"

text \<open>\<open>JSON.parse(text)\<close>; \<open>None\<close> is the SyntaxError.\<close>

definition JSON_parse :: "string \<Rightarrow> json option" where
  "JSON_parse text =
     (case parse_value (2 * length text + 2) text of
        None \<Rightarrow> None
      | Some (v, rest) \<Rightarrow> if skip_ws rest = [] then Some v else None)"


subsection \<open>Notions used to state the round trip\<close>

text \<open>
  What may follow a number in a JSON text: the end of the text, or a character that is
  no digit and none of \<open>.\<close>, \<open>e\<close>, \<open>E\<close>.
\<close>

definition number_end :: "string \<Rightarrow> bool" where
  "number_end rest =
     (case rest of [] \<Rightarrow> True
      | c # r \<Rightarrow> \<not> is_digit c \<and> c \<noteq> CHR ''.'' \<and> c \<noteq> CHR ''e'' \<and> c \<noteq> CHR ''E'')"


text \<open>
  The values that JavaScript holds as they are written here: every number has a finite
  decimal expansion, and the keys of an object are distinct and no array indices (which
  JavaScript would move to the front).
\<close>

fun wf_json :: "json \<Rightarrow> bool" where
  "wf_json (JNum r) = js_number r"
| "wf_json (JArr xs) = list_all wf_json xs"
| "wf_json (JObj kvs) =
     (distinct (map fst kvs) \<and> list_all (\<lambda>kv. \<not> is_index (fst kv) \<and> wf_json (snd kv)) kvs)"
| "wf_json v = True"

text \<open>What \<open>parse_value\<close> is to give on the text of a value, with enough fuel.\<close>

definition reads_back :: "json \<Rightarrow> bool" where
  "reads_back v =
     (\<forall>n rest. number_end rest \<longrightarrow> length (JSON_stringify v) \<le> n \<longrightarrow>
        parse_value n (JSON_stringify v @ rest) = Some (v, rest))"


section \<open>The server: POST /api/checkout\<close>

subsection \<open>ObjectId and the collections\<close>

text \<open>
  \<open>new ObjectId(string)\<close> of the MongoDB driver 6 (bson 6): the string must be 24
  hexadecimal digits, any other string throws. An id is kept as its lower-case hex form,
  which is also how it is written into JSON.
\<close>

type_synonym objectid = string

definition ObjectId :: "string \<Rightarrow> js_error + objectid" where
  "ObjectId s =
     (if length s = 24 \<and> list_all is_hex s then Inr (toLowerCase s) else Inl BSONError)"

record product =
  ident :: string
  name :: string
  price :: rat
  image_src :: string
  category :: string
  description :: string
  rating :: rat
  reviews :: int
  badge :: "string option"

record verified_item =
  productId :: objectid
  item_name :: string
  item_price :: rat
  item_image :: string
  item_quantity :: int

record customer_info =
  cust_name :: string
  cust_email :: string
  cust_address :: json

record order =
  customer :: customer_info
  items :: "verified_item list"
  total :: rat
  status :: string
  createdAt :: nat

text \<open>
  The database \<open>titan\<close>: the \<open>products\<close> and the \<open>orders\<close> collection. Whether a call
  to the store fails (the promise rejects) is part of the environment: \<open>find_fails\<close> and
  \<open>insert_fails\<close> say so.
\<close>

record database =
  products :: "product list"
  orders :: "(objectid \<times> order) list"
  find_fails :: bool
  insert_fails :: bool

text \<open>What a request reads from outside: the clock and the id the driver generates.\<close>

record env =
  now :: nat
  new_id :: objectid

datatype db_op = FindProduct objectid | InsertOrder order

definition findOne :: "database \<Rightarrow> objectid \<Rightarrow> js_error + product option" where
  "findOne db oid =
     (if find_fails db then Inl MongoError else Inr (find (\<lambda>p. ident p = oid) (products db)))"

definition insertOne :: "env \<Rightarrow> database \<Rightarrow> order \<Rightarrow> js_error + (objectid \<times> database)" where
  "insertOne e db ord =
     (if insert_fails db then Inl MongoError
      else Inr (new_id e, db\<lparr>orders := orders db @ [(new_id e, ord)]\<rparr>))"

subsection \<open>The handler\<close>

record response =
  status_code :: nat
  body :: json

definition error_response :: "nat \<Rightarrow> string \<Rightarrow> response" where
  "error_response code msg = \<lparr>status_code = code, body = JObj [(''error'', JStr msg)]\<rparr>"

definition isArray :: "json option \<Rightarrow> bool" where
  "isArray v = (case v of Some (JArr xs) \<Rightarrow> True | _ \<Rightarrow> False)"

definition elements :: "json option \<Rightarrow> json list" where
  "elements v = (case v of Some (JArr xs) \<Rightarrow> xs | _ \<Rightarrow> [])"

text \<open>\<open>Math.max(1, parseInt(item.quantity) || 1)\<close>\<close>

definition qty :: "json option \<Rightarrow> int" where
  "qty quantity = max 1 (or_1 (parseInt quantity))"

text \<open>
  The loop \<open>for (const item of items)\<close>: it ends by an exception (caught by the handler),
  by the early \<open>return res.status(400)\<close>, or with \<open>serverTotal\<close> and \<open>verifiedItems\<close>.
  The last argument is the list of the calls made to the store so far.
\<close>

datatype loop_result =
    Thrown "db_op list"
  | Returned response "db_op list"
  | Completed rat "verified_item list" "db_op list"

fun verify_items ::
  "database \<Rightarrow> json list \<Rightarrow> rat \<Rightarrow> verified_item list \<Rightarrow> db_op list \<Rightarrow> loop_result" where
  "verify_items db [] serverTotal verifiedItems tr = Completed serverTotal verifiedItems tr"
| "verify_items db (item # rest) serverTotal verifiedItems tr =
     (case get (Some item) ''_id'' of
        Inl e \<Rightarrow> Thrown tr
      | Inr item_id \<Rightarrow>
         (case ObjectId (String_of item_id) of
            Inl e \<Rightarrow> Thrown tr
          | Inr oid \<Rightarrow>
             (case findOne db oid of
                Inl e \<Rightarrow> Thrown (tr @ [FindProduct oid])
              | Inr None \<Rightarrow>
                  Returned (error_response 400 (''Product not found: '' @ String_of item_id))
                    (tr @ [FindProduct oid])
              | Inr (Some p) \<Rightarrow>
                  (let q = qty (property item ''quantity'') in
                   verify_items db rest (serverTotal + price p * of_int q)
                     (verifiedItems @
                       [\<lparr>productId = ident p, item_name = name p, item_price = price p,
                         item_image = image_src p, item_quantity = q\<rparr>])
                     (tr @ [FindProduct oid])))))"

text \<open>The object literal \<open>order\<close>; \<open>trim\<close> throws when name or email is no string.\<close>

definition make_order ::
  "env \<Rightarrow> json \<Rightarrow> rat \<Rightarrow> verified_item list \<Rightarrow> js_error + order" where
  "make_order e cust serverTotal verifiedItems =
     (case trim_method (property cust ''name'') of
        Inl err \<Rightarrow> Inl err
      | Inr nm \<Rightarrow>
         (case trim_method (property cust ''email'') of
            Inl err \<Rightarrow> Inl err
          | Inr em \<Rightarrow>
              Inr \<lparr>customer =
                     \<lparr>cust_name = nm, cust_email = toLowerCase em,
                      cust_address =
                        (case property cust ''address'' of
                           None \<Rightarrow> JStr []
                         | Some a \<Rightarrow> if truthy (Some a) then a else JStr [])\<rparr>,
                   items = verifiedItems,
                   total = of_int (Math_round (serverTotal * 100)) / 100,
                   status = ''pending'',
                   createdAt = now e\<rparr>))"

definition order_placed :: "objectid \<Rightarrow> order \<Rightarrow> response" where
  "order_placed insertedId ord =
     \<lparr>status_code = 201,
      body = JObj [(''orderId'', JStr insertedId), (''total'', JNum (total ord)),
                   (''message'', JStr ''Order placed successfully'')]\<rparr>"

definition checkout_failed :: response where
  "checkout_failed = error_response 500 ''Checkout failed. Please try again.''"

text \<open>
  \<open>app.post('/api/checkout', ...)\<close> on the parsed request body: the response, the
  database afterwards and the calls made to the store, in order.
\<close>

definition checkout :: "env \<Rightarrow> database \<Rightarrow> json \<Rightarrow> response \<times> database \<times> db_op list" where
  "checkout e db req_body =
     (let cust = property req_body ''customer'';
          its = property req_body ''items''
      in
      if \<not> truthy cust \<or> \<not> truthy its \<or> \<not> isArray its \<or> length (elements its) = 0
      then (error_response 400 ''Invalid order payload'', db, [])
      else
       (case cust of
          None \<Rightarrow> (error_response 400 ''Invalid order payload'', db, [])
        | Some c \<Rightarrow>
           if \<not> truthy (property c ''name'') \<or> \<not> truthy (property c ''email'')
           then (error_response 400 ''Customer name and email are required'', db, [])
           else
            (case verify_items db (elements its) 0 [] [] of
               Thrown tr \<Rightarrow> (checkout_failed, db, tr)
             | Returned r tr \<Rightarrow> (r, db, tr)
             | Completed serverTotal verifiedItems tr \<Rightarrow>
                (case make_order e c serverTotal verifiedItems of
                   Inl err \<Rightarrow> (checkout_failed, db, tr)
                 | Inr ord \<Rightarrow>
                    (case insertOne e db ord of
                       Inl err \<Rightarrow> (checkout_failed, db, tr @ [InsertOrder ord])
                     | Inr (insertedId, db') \<Rightarrow>
                         (order_placed insertedId ord, db', tr @ [InsertOrder ord]))))))"


subsection \<open>Notions used to state the properties of the handler\<close>

text \<open>The request body with its \<open>total\<close> field set to \<open>t\<close>.\<close>

definition with_total :: "json \<Rightarrow> json \<Rightarrow> json" where
  "with_total t req = (case req of JObj kvs \<Rightarrow> JObj (AList.update ''total'' t kvs) | _ \<Rightarrow> req)"



definition customer_field :: "json \<Rightarrow> string \<Rightarrow> json option" where
  "customer_field req k = (case property req ''customer'' of None \<Rightarrow> None | Some c \<Rightarrow> property c k)"

definition resolves :: "database \<Rightarrow> json \<Rightarrow> bool" where
  "resolves db item =
     (case get (Some item) ''_id'' of
        Inl e \<Rightarrow> False
      | Inr item_id \<Rightarrow>
         (case ObjectId (String_of item_id) of
            Inl e \<Rightarrow> False
          | Inr oid \<Rightarrow> find (\<lambda>p. ident p = oid) (products db) \<noteq> None))"

fun is_find :: "db_op \<Rightarrow> bool" where
  "is_find (FindProduct oid) = True"
| "is_find (InsertOrder ord) = False"

definition well_formed_id :: "json \<Rightarrow> bool" where
  "well_formed_id item =
     (case get (Some item) ''_id'' of
        Inl e \<Rightarrow> False
      | Inr item_id \<Rightarrow> (case ObjectId (String_of item_id) of Inl e \<Rightarrow> False | Inr oid \<Rightarrow> True))"

definition passes_validation :: "json \<Rightarrow> bool" where
  "passes_validation req =
     (truthy (property req ''customer'') \<and> truthy (property req ''items'') \<and>
      isArray (property req ''items'') \<and> elements (property req ''items'') \<noteq> [] \<and>
      truthy (customer_field req ''name'') \<and> truthy (customer_field req ''email''))"

fun names :: "string \<Rightarrow> string \<Rightarrow> bool" where
  "names [] w = (w = [])"
| "names (c # cs) w = (take (length w) (c # cs) = w \<or> names cs w)"


subsection \<open>A sample catalog and sample requests\<close>

definition headphones :: product where
  "headphones =
     \<lparr>ident = ''507f1f77bcf86cd799439011'', name = ''Headphones'', price = 2499 / 100,
      image_src = ''/img/headphones.png'', category = ''electronics'',
      description = ''Wireless'', rating = 9 / 2, reviews = 120, badge = None\<rparr>"

definition mug :: product where
  "mug =
     \<lparr>ident = ''507f1f77bcf86cd799439012'', name = ''Mug'', price = 1999 / 100,
      image_src = ''/img/mug.png'', category = ''home'',
      description = ''Ceramic'', rating = 4, reviews = 7, badge = Some ''New''\<rparr>"

definition shop :: database where
  "shop = \<lparr>products = [headphones, mug], orders = [], find_fails = False, insert_fails = False\<rparr>"

definition clock :: env where
  "clock = \<lparr>now = 1700000000, new_id = ''65a000000000000000000001''\<rparr>"

definition ada :: json where
  "ada = JObj [(''name'', JStr ''Ada''), (''email'', JStr ''Ada@Example.com'')]"

definition request :: "json \<Rightarrow> json list \<Rightarrow> json" where
  "request cust its = JObj [(''customer'', cust), (''items'', JArr its)]"

definition line :: "string \<Rightarrow> json \<Rightarrow> json" where
  "line i q = JObj [(''_id'', JStr i), (''quantity'', q)]"


definition no_name :: json where
  "no_name = JObj [(''name'', JStr []), (''email'', JStr ''ada@example.com'')]"


section \<open>The client: the cart engine\<close>

text \<open>
  A cart line is \<open>{ ...product, quantity }\<close>. The global state of the page: the product
  list last fetched, the cart, and \<open>localStorage\<close> with the number of \<open>setItem\<close> calls
  made so far. The DOM (toasts, badge, drawer) is not part of the state.
\<close>

record cart_line = product +
  quantity :: int

record client =
  allProducts :: "product list"
  cart :: "cart_line list"
  localStorage :: "string \<rightharpoonup> string"
  setItem_calls :: nat

definition CART_KEY :: string where
  "CART_KEY = ''titan_cart''"

definition json_of_product_fields :: "'a product_scheme \<Rightarrow> (string \<times> json) list" where
  "json_of_product_fields p =
     [(''_id'', JStr (ident p)), (''name'', JStr (name p)), (''price'', JNum (price p)),
      (''image'', JStr (image_src p)), (''category'', JStr (category p)),
      (''description'', JStr (description p)), (''rating'', JNum (rating p)),
      (''reviews'', JNum (of_int (reviews p)))] @
     (case badge p of None \<Rightarrow> [] | Some b \<Rightarrow> [(''badge'', JStr b)])"

definition json_of_line :: "cart_line \<Rightarrow> json" where
  "json_of_line item = JObj (json_of_product_fields item @ [(''quantity'', JNum (of_int (quantity item)))])"

definition json_of_cart :: "cart_line list \<Rightarrow> json" where
  "json_of_cart c = JArr (map json_of_line c)"

definition saveCart :: "client \<Rightarrow> client" where
  "saveCart st =
     st\<lparr>localStorage := (localStorage st)(CART_KEY \<mapsto> JSON_stringify (json_of_cart (cart st))),
        setItem_calls := Suc (setItem_calls st)\<rparr>"

text \<open>
  \<open>loadCart\<close>: \<open>getItem\<close> gives \<open>null\<close> for a missing key, and \<open>JSON.parse(null)\<close> parses
  the text \<open>null\<close>; the \<open>catch\<close> turns the SyntaxError into the empty array.
\<close>

definition loadCart :: "(string \<rightharpoonup> string) \<Rightarrow> json" where
  "loadCart ls =
     (case JSON_parse (case ls CART_KEY of None \<Rightarrow> ''null'' | Some text \<Rightarrow> text) of
        None \<Rightarrow> JArr []
      | Some v \<Rightarrow> if truthy (Some v) then v else JArr [])"

text \<open>\<open>{ ...product, quantity: q }\<close>\<close>

definition new_line :: "product \<Rightarrow> int \<Rightarrow> cart_line" where
  "new_line p q =
     \<lparr>ident = ident p, name = name p, price = price p, image_src = image_src p,
      category = category p, description = description p, rating = rating p,
      reviews = reviews p, badge = badge p, quantity = q\<rparr>"

text \<open>\<open>item.quantity || 1\<close>\<close>

definition quantity_or_1 :: "cart_line \<Rightarrow> int" where
  "quantity_or_1 item = or_1 (Some (quantity item))"

text \<open>
  An assignment to a field of the object that \<open>cart.find\<close> returned changes the first
  line of the cart that satisfies the predicate.
\<close>

fun update_first :: "('a \<Rightarrow> bool) \<Rightarrow> ('a \<Rightarrow> 'a) \<Rightarrow> 'a list \<Rightarrow> 'a list" where
  "update_first P f [] = []"
| "update_first P f (x # xs) = (if P x then f x # xs else x # update_first P f xs)"

definition addToCart :: "string \<Rightarrow> client \<Rightarrow> client" where
  "addToCart product_id st =
     (case find (\<lambda>p. ident p = product_id) (allProducts st) of
        None \<Rightarrow> st
      | Some p \<Rightarrow>
         (case find (\<lambda>item. ident item = product_id) (cart st) of
            Some existing \<Rightarrow>
              saveCart (st\<lparr>cart := update_first (\<lambda>item. ident item = product_id)
                                      (\<lambda>item. item\<lparr>quantity := quantity_or_1 item + 1\<rparr>) (cart st)\<rparr>)
          | None \<Rightarrow> saveCart (st\<lparr>cart := cart st @ [new_line p 1]\<rparr>)))"

definition removeFromCart :: "string \<Rightarrow> client \<Rightarrow> client" where
  "removeFromCart product_id st =
     saveCart (st\<lparr>cart := filter (\<lambda>item. ident item \<noteq> product_id) (cart st)\<rparr>)"

definition changeQty :: "string \<Rightarrow> int \<Rightarrow> client \<Rightarrow> client" where
  "changeQty product_id delta st =
     (case find (\<lambda>i. ident i = product_id) (cart st) of
        None \<Rightarrow> st
      | Some item \<Rightarrow>
         (let st' = st\<lparr>cart := update_first (\<lambda>i. ident i = product_id)
                               (\<lambda>i. i\<lparr>quantity := quantity_or_1 i + delta\<rparr>) (cart st)\<rparr>
          in if quantity_or_1 item + delta \<le> 0 then removeFromCart product_id st'
             else saveCart st'))"

definition clearCart :: "client \<Rightarrow> client" where
  "clearCart st = saveCart (st\<lparr>cart := []\<rparr>)"

definition getCartTotal :: "client \<Rightarrow> rat" where
  "getCartTotal st = foldl (\<lambda>sum item. sum + price item * of_int (quantity_or_1 item)) 0 (cart st)"

definition getCartCount :: "client \<Rightarrow> int" where
  "getCartCount st = foldl (\<lambda>sum item. sum + quantity_or_1 item) 0 (cart st)"

subsection \<open>Checkout from the page\<close>

text \<open>
  The checkout form, and what \<open>fetch\<close> followed by \<open>res.json()\<close> gives: a rejected
  promise (no connection, or a body that is no JSON), or a status with the parsed body.
\<close>

record checkout_form =
  custName :: string
  custEmail :: string
  custAddress :: string

datatype fetch_result = Rejected | Fetched nat json

definition res_ok :: "nat \<Rightarrow> bool" where
  "res_ok st = (200 \<le> st \<and> st \<le> 299)"

definition order_request :: "checkout_form \<Rightarrow> client \<Rightarrow> json" where
  "order_request form st =
     JObj [(''customer'',
             JObj [(''name'', JStr (trim (custName form))), (''email'', JStr (trim (custEmail form))),
                   (''address'', JStr (trim (custAddress form)))]),
           (''items'', json_of_cart (cart st)),
           (''total'', JNum (getCartTotal st))]"

text \<open>
  \<open>submitOrder\<close>, with the network and the server as a function from the request body to
  the result of the fetch.
\<close>

definition submitOrder :: "checkout_form \<Rightarrow> (json \<Rightarrow> fetch_result) \<Rightarrow> client \<Rightarrow> client" where
  "submitOrder form fetch st =
     (if trim (custName form) = [] \<or> trim (custEmail form) = [] then st
      else
       (case fetch (order_request form st) of
          Rejected \<Rightarrow> st
        | Fetched code data \<Rightarrow> if \<not> res_ok code then st else clearCart st))"

text \<open>The server of this repository behind \<open>fetch\<close>, the connection working.\<close>

definition titan_server :: "env \<Rightarrow> database \<Rightarrow> json \<Rightarrow> fetch_result" where
  "titan_server e db req_body =
     (case checkout e db req_body of (r, db', tr) \<Rightarrow> Fetched (status_code r) (body r))"

subsection \<open>Notions used to state the properties of the cart\<close>

text \<open>The invariant of the data model: one line per product id, every quantity at least 1.\<close>

definition cart_inv :: "cart_line list \<Rightarrow> bool" where
  "cart_inv c = (distinct (map ident c) \<and> list_all (\<lambda>item. 1 \<le> quantity item) c)"

datatype cart_op = Add string | Remove string | ChangeQuantity string int | Clear

fun apply_op :: "client \<Rightarrow> cart_op \<Rightarrow> client" where
  "apply_op st (Add product_id) = addToCart product_id st"
| "apply_op st (Remove product_id) = removeFromCart product_id st"
| "apply_op st (ChangeQuantity product_id delta) = changeQty product_id delta st"
| "apply_op st Clear = clearCart st"

definition page :: client where
  "page = \<lparr>allProducts = [headphones, mug], cart = [], localStorage = Map.empty, setItem_calls = 0\<rparr>"

definition session :: "cart_op list" where
  "session = [Add ''507f1f77bcf86cd799439011'', Add ''507f1f77bcf86cd799439012'',
              Add ''507f1f77bcf86cd799439011'', ChangeQuantity ''507f1f77bcf86cd799439012'' 2,
              Remove ''507f1f77bcf86cd799439099'', ChangeQuantity ''507f1f77bcf86cd799439011'' (- 1)]"

definition ada_form :: checkout_form where
  "ada_form = \<lparr>custName = ''Ada'', custEmail = ''Ada@Example.com'', custAddress = []\<rparr>"

definition basket :: client where
  "basket = addToCart ''507f1f77bcf86cd799439011'' page"


section \<open>Properties of the handler\<close>

lemma property_with_total: "k \<noteq> ''total'' \<Longrightarrow> property (with_total t req) k = property req k"
  by (cases req) (simp_all add: with_total_def update_conv')




lemma verify_items_Completed:
  "verify_items db its t0 v0 tr0 = Completed t v tr \<Longrightarrow>
     \<exists>new. v = v0 @ new \<and> length new = length its \<and>
       t = t0 + (\<Sum>vi\<leftarrow>new. item_price vi * of_int (item_quantity vi)) \<and>
       (\<forall>i<length its.
          item_quantity (new ! i) = qty (property (its ! i) ''quantity'') \<and>
          (\<exists>p. find (\<lambda>p. ident p = productId (new ! i)) (products db) = Some p \<and>
               item_price (new ! i) = price p \<and> item_name (new ! i) = name p \<and>
               item_image (new ! i) = image_src p)) \<and>
       (\<forall>it\<in>set its. resolves db it)"
proof (induction its arbitrary: t0 v0 tr0)
  case Nil
  then show ?case by simp
next
  case (Cons item rest)
  from Cons.prems obtain item_id oid p where
    g: "get (Some item) ''_id'' = Inr item_id" and
    o: "ObjectId (String_of item_id) = Inr oid" and
    f: "findOne db oid = Inr (Some p)" and
    rec: "verify_items db rest (t0 + price p * of_int (qty (property item ''quantity'')))
           (v0 @ [\<lparr>productId = ident p, item_name = name p, item_price = price p,
                  item_image = image_src p, item_quantity = qty (property item ''quantity'')\<rparr>])
           (tr0 @ [FindProduct oid]) = Completed t v tr"
    by (auto simp: Let_def split: sum.splits option.splits)
  let ?x = "\<lparr>productId = ident p, item_name = name p, item_price = price p,
                  item_image = image_src p, item_quantity = qty (property item ''quantity'')\<rparr>"
  from f have fnd: "find (\<lambda>p. ident p = oid) (products db) = Some p"
    by (simp add: findOne_def split: if_splits)
  then have idp: "ident p = oid"
    by (auto simp: find_Some_iff)
  from Cons.IH [OF rec] obtain new where
    n1: "v = (v0 @ [?x]) @ new" and n2: "length new = length rest" and
    n3: "t = t0 + price p * of_int (qty (property item ''quantity'')) +
           (\<Sum>vi\<leftarrow>new. item_price vi * of_int (item_quantity vi))" and
    n4: "\<forall>i<length rest.
          item_quantity (new ! i) = qty (property (rest ! i) ''quantity'') \<and>
          (\<exists>p. find (\<lambda>p. ident p = productId (new ! i)) (products db) = Some p \<and>
               item_price (new ! i) = price p \<and> item_name (new ! i) = name p \<and>
               item_image (new ! i) = image_src p)" and
    n5: "\<forall>it\<in>set rest. resolves db it"
    by blast
  have r: "resolves db item"
    using g o fnd by (simp add: resolves_def)
  have nth: "\<forall>i<length (item # rest).
          item_quantity ((?x # new) ! i) = qty (property ((item # rest) ! i) ''quantity'') \<and>
          (\<exists>p. find (\<lambda>p. ident p = productId ((?x # new) ! i)) (products db) = Some p \<and>
               item_price ((?x # new) ! i) = price p \<and> item_name ((?x # new) ! i) = name p \<and>
               item_image ((?x # new) ! i) = image_src p)"
  proof (intro allI impI)
    fix i assume "i < length (item # rest)"
    then show "item_quantity ((?x # new) ! i) = qty (property ((item # rest) ! i) ''quantity'') \<and>
          (\<exists>p. find (\<lambda>p. ident p = productId ((?x # new) ! i)) (products db) = Some p \<and>
               item_price ((?x # new) ! i) = price p \<and> item_name ((?x # new) ! i) = name p \<and>
               item_image ((?x # new) ! i) = image_src p)"
      using n4 fnd idp by (cases i) auto
  qed
  show ?case
    apply (rule exI [of _ "?x # new"])
    using n1 n2 n3 nth n5 r by simp
qed


lemma verify_items_trace:
  "list_all is_find tr0 \<Longrightarrow>
     (case verify_items db its t0 v0 tr0 of
        Thrown tr \<Rightarrow> list_all is_find tr
      | Returned r tr \<Rightarrow> list_all is_find tr \<and> status_code r = 400
      | Completed t v tr \<Rightarrow> list_all is_find tr)"
proof (induction its arbitrary: t0 v0 tr0)
  case Nil
  then show ?case by simp
next
  case (Cons item rest)
  show ?case
    using Cons.prems Cons.IH
    by (auto simp: Let_def error_response_def split: sum.splits option.splits)
qed

lemma verify_items_Returned:
  "verify_items db its t0 v0 [] = Returned r tr \<Longrightarrow> status_code r = 400 \<and> list_all is_find tr"
  using verify_items_trace [of "[]" db its t0 v0] by simp

lemma verify_items_Thrown:
  "verify_items db its t0 v0 [] = Thrown tr \<Longrightarrow> list_all is_find tr"
  using verify_items_trace [of "[]" db its t0 v0] by simp

lemma verify_items_Completed_trace:
  "verify_items db its t0 v0 [] = Completed t v tr \<Longrightarrow> list_all is_find tr"
  using verify_items_trace [of "[]" db its t0 v0] by simp


lemma checkout_cases:
  "checkout e db req = (r, db', tr) \<Longrightarrow>
     (db' = db \<and> list_all is_find tr \<and> (status_code r = 400 \<or> status_code r = 500)) \<or>
     (db' = db \<and> status_code r = 500 \<and> insert_fails db \<and>
      (\<forall>it\<in>set (elements (property req ''items'')). resolves db it)) \<or>
     (\<exists>c t v tr0 ord.
        property req ''customer'' = Some c \<and>
        verify_items db (elements (property req ''items'')) 0 [] [] = Completed t v tr0 \<and>
        make_order e c t v = Inr ord \<and> \<not> insert_fails db \<and>
        r = order_placed (new_id e) ord \<and>
        db' = db\<lparr>orders := orders db @ [(new_id e, ord)]\<rparr> \<and>
        tr = tr0 @ [InsertOrder ord])"
  unfolding checkout_def Let_def
  by (auto simp: error_response_def checkout_failed_def insertOne_def
        dest: verify_items_Returned verify_items_Thrown verify_items_Completed_trace
              verify_items_Completed
        split: if_splits option.splits loop_result.splits sum.splits)

lemma checkout_201:
  assumes "checkout e db req = (r, db', tr)" and "status_code r = 201"
  shows "\<exists>c t v tr0 ord.
        property req ''customer'' = Some c \<and>
        verify_items db (elements (property req ''items'')) 0 [] [] = Completed t v tr0 \<and>
        make_order e c t v = Inr ord \<and> \<not> insert_fails db \<and>
        r = order_placed (new_id e) ord \<and>
        db' = db\<lparr>orders := orders db @ [(new_id e, ord)]\<rparr> \<and>
        tr = tr0 @ [InsertOrder ord]"
  using checkout_cases [OF assms(1)] assms(2) by auto


lemma verify_items_not_found:
  assumes "\<forall>it\<in>set pre. resolves db it" and "\<not> find_fails db"
    and "well_formed_id bad" and "\<not> resolves db bad"
  shows "\<exists>tr. verify_items db (pre @ bad # post) t0 v0 tr0 =
           Returned (error_response 400 (''Product not found: '' @ String_of (property bad ''_id''))) tr"
  using assms(1)
proof (induction pre arbitrary: t0 v0 tr0)
  case Nil
  from assms(3) obtain item_id oid where
    g: "get (Some bad) ''_id'' = Inr item_id" and o: "ObjectId (String_of item_id) = Inr oid"
    by (auto simp: well_formed_id_def split: sum.splits)
  from g have p: "property bad ''_id'' = item_id"
    by (cases bad) auto
  from assms(4) g o have "find (\<lambda>p. ident p = oid) (products db) = None"
    by (simp add: resolves_def)
  with g o p assms(2) show ?case
    by (simp add: findOne_def)
next
  case (Cons item pre)
  from Cons.prems have "resolves db item" and rest: "\<forall>it\<in>set pre. resolves db it"
    by simp_all
  then obtain item_id oid p where
    "get (Some item) ''_id'' = Inr item_id" "ObjectId (String_of item_id) = Inr oid"
    "find (\<lambda>p. ident p = oid) (products db) = Some p"
    by (auto simp: resolves_def split: sum.splits)
  with assms(2) Cons.IH [OF rest] show ?case
    by (simp add: findOne_def Let_def)
qed

lemma checkout_unresolved:
  assumes "checkout e db req = (r, db', tr)"
    and "\<exists>it\<in>set (elements (property req ''items'')). \<not> resolves db it"
  shows "db' = db \<and> list_all is_find tr"
  using checkout_cases [OF assms(1)] assms(2)
  by (auto dest: verify_items_Completed verify_items_Completed_trace)




subsection \<open>The sample requests, evaluated\<close>

lemma ObjectId_headphones: "ObjectId ''507f1f77bcf86cd799439011'' = Inr ''507f1f77bcf86cd799439011''"
  by code_simp

lemma ObjectId_mug: "ObjectId ''507f1f77bcf86cd799439012'' = Inr ''507f1f77bcf86cd799439012''"
  by code_simp

lemma ObjectId_deleted: "ObjectId ''507f1f77bcf86cd799439099'' = Inr ''507f1f77bcf86cd799439099''"
  by code_simp

lemma ObjectId_abc: "ObjectId ''abc'' = Inl BSONError"
  by code_simp

lemma qty_2: "qty (Some (JNum 2)) = 2"
  by code_simp

lemma qty_abc: "qty (Some (JStr ''abc'')) = 1"
  by code_simp

lemma findOne_headphones: "findOne shop ''507f1f77bcf86cd799439011'' = Inr (Some headphones)"
  by code_simp

lemma findOne_mug: "findOne shop ''507f1f77bcf86cd799439012'' = Inr (Some mug)"
  by code_simp

lemma findOne_deleted: "findOne shop ''507f1f77bcf86cd799439099'' = Inr None"
  by code_simp

lemma trim_Ada: "trim ''Ada'' = ''Ada''"
  by code_simp

lemma toLowerCase_Ada: "toLowerCase (trim ''Ada@Example.com'') = ''ada@example.com''"
  by code_simp

lemma Math_round_of_int: "Math_round (of_int n) = n"
  by (simp add: Math_round_def floor_eq_iff)

lemma Math_round_numeral: "Math_round (numeral k) = numeral k"
  using Math_round_of_int [of "numeral k"] by simp

lemma headphones_fields:
  "ident headphones = ''507f1f77bcf86cd799439011''" "name headphones = ''Headphones''"
  "price headphones = 2499 / 100" "image_src headphones = ''/img/headphones.png''"
  by (simp_all add: headphones_def)

lemma mug_fields:
  "ident mug = ''507f1f77bcf86cd799439012''" "name mug = ''Mug''"
  "price mug = 1999 / 100" "image_src mug = ''/img/mug.png''"
  by (simp_all add: mug_def)

lemma shop_fields:
  "orders shop = []" "insert_fails shop = False" "find_fails shop = False"
  by (simp_all add: shop_def)

lemmas sample_simps =
  ObjectId_headphones ObjectId_mug ObjectId_deleted ObjectId_abc qty_2 qty_abc
  findOne_headphones findOne_mug findOne_deleted trim_Ada toLowerCase_Ada
  headphones_fields mug_fields shop_fields
  line_def String_of_def request_def ada_def isArray_def elements_def make_order_def
  trim_method_def Math_round_numeral Let_def insertOne_def order_placed_def error_response_def
  checkout_failed_def

lemma checkout_two_headphones:
  "checkout clock shop (request ada [line ''507f1f77bcf86cd799439011'' (JNum 2)]) =
    (let ord = \<lparr>customer = \<lparr>cust_name = ''Ada'', cust_email = ''ada@example.com'', cust_address = JStr []\<rparr>,
               items = [\<lparr>productId = ''507f1f77bcf86cd799439011'', item_name = ''Headphones'',
                         item_price = 2499 / 100, item_image = ''/img/headphones.png'', item_quantity = 2\<rparr>],
               total = 4998 / 100, status = ''pending'', createdAt = now clock\<rparr>
     in (\<lparr>status_code = 201,
          body = JObj [(''orderId'', JStr (new_id clock)), (''total'', JNum (4998 / 100)),
                       (''message'', JStr ''Order placed successfully'')]\<rparr>,
         shop\<lparr>orders := [(new_id clock, ord)]\<rparr>,
         [FindProduct ''507f1f77bcf86cd799439011'', InsertOrder ord]))"
  by (simp add: checkout_def sample_simps)


lemma checkout_with_total: "checkout e db (with_total t req) = checkout e db req"
  by (simp add: checkout_def property_with_total)

lemma with_total_request:
  "with_total t (request c its) = JObj [(''customer'', c), (''items'', JArr its), (''total'', t)]"
  by (simp add: with_total_def request_def)


section \<open>The client total is advisory\<close>

text \<open>
  Claim C1. The handler never reads the \<open>total\<close> field of the request: two requests that
  differ only in the client-supplied total give the same response, the same database
  (hence the same persisted order) and the same calls to the store. In particular a request
  for two headphones at 24.99 that claims a total of 1.00 is answered with, and persisted
  with, the total 49.98.
\<close>

theorem checkout_ignores_client_total:
  "checkout e db (with_total t1 req) = checkout e db (with_total t2 req) \<and>
   (let tampered = with_total (JNum 1) (request ada [line ''507f1f77bcf86cd799439011'' (JNum 2)])
    in property tampered ''total'' = Some (JNum 1) \<and>
       (case checkout clock shop tampered of
          (r, db', tr) \<Rightarrow>
            status_code r = 201 \<and> property (body r) ''total'' = Some (JNum (4998 / 100)) \<and>
            map (\<lambda>(i, ord). total ord) (orders db') = [4998 / 100]))"
proof
  show "checkout e db (with_total t1 req) = checkout e db (with_total t2 req)"
    by (simp add: checkout_with_total)
next
  have "property (with_total (JNum 1) (request ada [line ''507f1f77bcf86cd799439011'' (JNum 2)])) ''total''
          = Some (JNum 1)"
    by (simp add: with_total_request)
  then show "let tampered = with_total (JNum 1) (request ada [line ''507f1f77bcf86cd799439011'' (JNum 2)])
    in property tampered ''total'' = Some (JNum 1) \<and>
       (case checkout clock shop tampered of
          (r, db', tr) \<Rightarrow>
            status_code r = 201 \<and> property (body r) ''total'' = Some (JNum (4998 / 100)) \<and>
            map (\<lambda>(i, ord). total ord) (orders db') = [4998 / 100])"
    by (simp add: checkout_with_total checkout_two_headphones Let_def)
qed

theorem checkout_ignores_client_total_witness:
  "checkout clock shop (with_total (JNum 1) (request ada [line ''507f1f77bcf86cd799439011'' (JNum 2)])) =
   checkout clock shop (with_total (JNum (4998 / 100)) (request ada [line ''507f1f77bcf86cd799439011'' (JNum 2)]))"
  using checkout_ignores_client_total
    [of clock shop "JNum 1" "request ada [line ''507f1f77bcf86cd799439011'' (JNum 2)]" "JNum (4998 / 100)"]
  by blast


section \<open>Validation comes before any lookup\<close>

text \<open>
  Claim C3. A request with a missing or empty item list, or whose customer name or customer
  email is missing, empty or otherwise falsy, is answered with status 400, the database is
  unchanged and no call to the store is made: the list of calls is empty, so no product
  query is issued.
\<close>

theorem validation_precedes_lookup:
  assumes "property req ''items'' = None \<or> property req ''items'' = Some (JArr []) \<or>
           truthy (customer_field req ''name'') = False \<or>
           truthy (customer_field req ''email'') = False"
  shows "\<exists>msg. checkout e db req = (error_response 400 msg, db, [])"
proof (cases "\<not> truthy (property req ''customer'') \<or> \<not> truthy (property req ''items'') \<or>
        \<not> isArray (property req ''items'') \<or> length (elements (property req ''items'')) = 0")
  case True
  then show ?thesis
    by (auto simp: checkout_def)
next
  case False
  then obtain c where c: "property req ''customer'' = Some c"
    by (cases "property req ''customer''") auto
  from False have "property req ''items'' \<noteq> None" "property req ''items'' \<noteq> Some (JArr [])"
    by (auto simp: elements_def split: option.splits)
  with assms c have "\<not> truthy (property c ''name'') \<or> \<not> truthy (property c ''email'')"
    by (auto simp: customer_field_def)
  with False c show ?thesis
    by (auto simp: checkout_def)
qed

theorem validation_precedes_lookup_witness:
  "(\<exists>msg. checkout clock shop (request ada []) = (error_response 400 msg, shop, [])) \<and>
   (\<exists>msg. checkout clock shop
      (request (JObj [(''name'', JStr []), (''email'', JStr ''ada@example.com'')])
         [line ''507f1f77bcf86cd799439011'' (JNum 1)]) = (error_response 400 msg, shop, [])) \<and>
   (\<exists>msg. checkout clock shop
      (request (JObj [(''name'', JStr ''Ada'')]) [line ''507f1f77bcf86cd799439011'' (JNum 1)])
        = (error_response 400 msg, shop, []))"
proof (intro conjI)
  show "\<exists>msg. checkout clock shop (request ada []) = (error_response 400 msg, shop, [])"
    using validation_precedes_lookup [of "request ada []" clock shop]
    by (simp add: request_def)
  show "\<exists>msg. checkout clock shop
      (request (JObj [(''name'', JStr []), (''email'', JStr ''ada@example.com'')])
         [line ''507f1f77bcf86cd799439011'' (JNum 1)]) = (error_response 400 msg, shop, [])"
    using validation_precedes_lookup
      [of "request (JObj [(''name'', JStr []), (''email'', JStr ''ada@example.com'')])
             [line ''507f1f77bcf86cd799439011'' (JNum 1)]" clock shop]
    by (simp add: request_def customer_field_def)
  show "\<exists>msg. checkout clock shop
      (request (JObj [(''name'', JStr ''Ada'')]) [line ''507f1f77bcf86cd799439011'' (JNum 1)])
        = (error_response 400 msg, shop, [])"
    using validation_precedes_lookup
      [of "request (JObj [(''name'', JStr ''Ada'')]) [line ''507f1f77bcf86cd799439011'' (JNum 1)]"
          clock shop]
    by (simp add: request_def customer_field_def)
qed



section \<open>Quantities, line prices and the order total\<close>





section \<open>Items with no matching product\<close>

lemma resolves_deleted: "\<not> resolves shop (line ''507f1f77bcf86cd799439099'' (JNum 1))"
  using findOne_deleted
  by (simp add: resolves_def line_def String_of_def ObjectId_deleted findOne_def shop_fields)

lemma resolves_headphones: "resolves shop (line ''507f1f77bcf86cd799439011'' q)"
  using findOne_headphones
  by (simp add: resolves_def line_def String_of_def ObjectId_headphones findOne_def shop_fields)

lemma resolves_mug: "resolves shop (line ''507f1f77bcf86cd799439012'' q)"
  using findOne_mug
  by (simp add: resolves_def line_def String_of_def ObjectId_mug findOne_def shop_fields)

lemma names_self: "names w w"
  by (cases w) simp_all

lemma names_append: "names (pre @ w) w"
  by (induction pre) (simp_all add: names_self)

lemma names_not: "\<not> names ''Customer name and email are required'' ''507f1f77bcf86cd799439099''"
  by code_simp

lemma names_yes: "names ''Product not found: 507f1f77bcf86cd799439099'' ''507f1f77bcf86cd799439099''"
  by code_simp


text \<open>
  Claim C2, as stated, fails on a request that does not pass validation: the item's id has
  no product in the catalog, and the response is the validation error, which does not
  name the id.
\<close>

theorem unknown_product_named_counterexample:
  "\<not> resolves shop (line ''507f1f77bcf86cd799439099'' (JNum 1)) \<and>
   checkout clock shop (request no_name [line ''507f1f77bcf86cd799439099'' (JNum 1)]) =
     (error_response 400 ''Customer name and email are required'', shop, []) \<and>
   \<not> names ''Customer name and email are required'' ''507f1f77bcf86cd799439099''"
proof (intro conjI)
  show "\<not> resolves shop (line ''507f1f77bcf86cd799439099'' (JNum 1))"
    by (rule resolves_deleted)
  show "checkout clock shop (request no_name [line ''507f1f77bcf86cd799439099'' (JNum 1)]) =
     (error_response 400 ''Customer name and email are required'', shop, [])"
    by (simp add: checkout_def request_def no_name_def isArray_def elements_def)
  show "\<not> names ''Customer name and email are required'' ''507f1f77bcf86cd799439099''"
    by (rule names_not)
qed


text \<open>
  An id that is not 24 hexadecimal digits makes \<open>new ObjectId\<close> throw inside the loop;
  the handler's \<open>catch\<close> answers with status 500 and the generic message.
\<close>

lemma malformed_id_is_server_error:
  "checkout clock shop (request ada [line ''abc'' (JNum 1)]) = (checkout_failed, shop, [])"
  by (simp add: checkout_def sample_simps)

text \<open>
  Claim C2, amended. Take a request whose item list has a first item \<open>bad\<close> with no
  matching product (every item before it resolves). Then the database is unchanged and
  the only calls to the store are product lookups: no order is inserted, and none is
  attempted. If moreover the request passes validation, the lookups of the catalog do not
  fail and the id of \<open>bad\<close> is a well-formed ObjectId string, the response is status 400
  with the message \<open>Product not found: \<close> followed by that id as the client sent it.
\<close>

theorem unknown_product_aborts_order:
  assumes "property req ''items'' = Some (JArr (pre @ bad # post))"
    and "\<forall>it\<in>set pre. resolves db it" and "\<not> resolves db bad"
    and "checkout e db req = (r, db', tr)"
  shows "db' = db \<and> list_all is_find tr \<and>
         (passes_validation req \<and> \<not> find_fails db \<and> well_formed_id bad \<longrightarrow>
            r = error_response 400 (''Product not found: '' @ String_of (property bad ''_id'')) \<and>
            names (''Product not found: '' @ String_of (property bad ''_id''))
                  (String_of (property bad ''_id'')))"
proof (intro conjI impI)
  have el: "elements (property req ''items'') = pre @ bad # post"
    using assms(1) by (simp add: elements_def)
  then have "\<exists>it\<in>set (elements (property req ''items'')). \<not> resolves db it"
    using assms(3) by auto
  from checkout_unresolved [OF assms(4) this]
  show "db' = db" and "list_all is_find tr"
    by simp_all
  assume a: "passes_validation req \<and> \<not> find_fails db \<and> well_formed_id bad"
  then obtain c where c: "property req ''customer'' = Some c"
    by (cases "property req ''customer''") (auto simp: passes_validation_def)
  from a c have val: "truthy (property c ''name'')" "truthy (property c ''email'')"
    by (auto simp: passes_validation_def customer_field_def)
  from a have nf: "\<not> find_fails db" and wf: "well_formed_id bad"
    by simp_all
  from verify_items_not_found [OF assms(2) nf wf assms(3), of post 0 "[]" "[]"]
  obtain tr' where
    "verify_items db (pre @ bad # post) 0 [] [] =
       Returned (error_response 400 (''Product not found: '' @ String_of (property bad ''_id''))) tr'"
    by blast
  with assms(4) a c val el
  show "r = error_response 400 (''Product not found: '' @ String_of (property bad ''_id''))"
    by (auto simp: checkout_def passes_validation_def)
  show "names (''Product not found: '' @ String_of (property bad ''_id''))
              (String_of (property bad ''_id''))"
    by (rule names_append)
qed


lemma well_formed_deleted: "well_formed_id (line ''507f1f77bcf86cd799439099'' q)"
  by (simp add: well_formed_id_def line_def String_of_def ObjectId_deleted)

lemma passes_validation_ada: "its \<noteq> [] \<Longrightarrow> passes_validation (request ada its)"
  by (simp add: passes_validation_def request_def ada_def isArray_def elements_def customer_field_def)

theorem unknown_product_aborts_order_witness:
  "\<exists>tr. checkout clock shop
          (request ada [line ''507f1f77bcf86cd799439011'' (JNum 1),
                        line ''507f1f77bcf86cd799439099'' (JNum 1),
                        line ''507f1f77bcf86cd799439012'' (JNum 1)]) =
        (error_response 400 ''Product not found: 507f1f77bcf86cd799439099'', shop, tr) \<and>
        list_all is_find tr"
proof -
  let ?req = "request ada [line ''507f1f77bcf86cd799439011'' (JNum 1),
                        line ''507f1f77bcf86cd799439099'' (JNum 1),
                        line ''507f1f77bcf86cd799439012'' (JNum 1)]"
  obtain r db' tr where ev: "checkout clock shop ?req = (r, db', tr)"
    by (cases "checkout clock shop ?req")
  have i: "property ?req ''items'' =
      Some (JArr ([line ''507f1f77bcf86cd799439011'' (JNum 1)] @
                  line ''507f1f77bcf86cd799439099'' (JNum 1) #
                  [line ''507f1f77bcf86cd799439012'' (JNum 1)]))"
    by (simp add: request_def)
  have p: "\<forall>it\<in>set [line ''507f1f77bcf86cd799439011'' (JNum 1)]. resolves shop it"
    by (simp add: resolves_headphones)
  have v: "passes_validation ?req \<and> \<not> find_fails shop \<and>
           well_formed_id (line ''507f1f77bcf86cd799439099'' (JNum 1))"
    by (simp add: passes_validation_ada shop_fields well_formed_deleted)
  have m: "String_of (property (line ''507f1f77bcf86cd799439099'' (JNum 1)) ''_id'') =
           ''507f1f77bcf86cd799439099''"
    by (simp add: line_def String_of_def)
  from unknown_product_aborts_order [OF i p resolves_deleted ev] v m
  have "db' = shop" "list_all is_find tr"
       "r = error_response 400 ''Product not found: 507f1f77bcf86cd799439099''"
    by simp_all
  with ev show ?thesis
    by simp
qed



section \<open>Properties of the cart engine\<close>

lemma cart_saveCart: "cart (saveCart st) = cart st"
  by (simp add: saveCart_def)

lemma allProducts_saveCart: "allProducts (saveCart st) = allProducts st"
  by (simp add: saveCart_def)

lemma map_ident_update_first:
  "(\<And>x. ident (f x) = ident x) \<Longrightarrow> map ident (update_first P f c) = map ident c"
  by (induction c) simp_all

lemma list_all_update_first:
  "list_all Q c \<Longrightarrow> (\<And>x. x \<in> set c \<Longrightarrow> P x \<Longrightarrow> Q (f x)) \<Longrightarrow> list_all Q (update_first P f c)"
  by (induction c) simp_all

lemma find_in_set: "find P c = Some x \<Longrightarrow> x \<in> set c \<and> P x"
  by (auto simp: find_Some_iff)

lemma quantity_or_1_inv: "1 \<le> quantity item \<Longrightarrow> quantity_or_1 item = quantity item"
  by (simp add: quantity_or_1_def or_1_def)

lemma cart_inv_member: "cart_inv c \<Longrightarrow> item \<in> set c \<Longrightarrow> 1 \<le> quantity item"
  by (simp add: cart_inv_def list_all_iff)

lemma cart_inv_filter: "cart_inv c \<Longrightarrow> cart_inv (filter P c)"
  by (simp add: cart_inv_def distinct_map_filter list_all_iff)

lemma cart_inv_addToCart: "cart_inv (cart st) \<Longrightarrow> cart_inv (cart (addToCart i st))"
proof -
  assume inv: "cart_inv (cart st)"
  show ?thesis
  proof (cases "find (\<lambda>p. ident p = i) (allProducts st)")
    case None
    with inv show ?thesis by (simp add: addToCart_def)
  next
    case (Some p)
    note p = Some
    show ?thesis
    proof (cases "find (\<lambda>item. ident item = i) (cart st)")
      case None
      then have "i \<notin> ident ` set (cart st)"
        by (auto simp: find_None_iff)
      moreover from p have "ident p = i"
        using find_in_set by fastforce
      ultimately show ?thesis
        using inv p None
        by (simp add: addToCart_def cart_saveCart cart_inv_def new_line_def)
    next
      case (Some existing)
      have "list_all (\<lambda>item. 1 \<le> quantity item)
              (update_first (\<lambda>item. ident item = i)
                 (\<lambda>item. item\<lparr>quantity := quantity_or_1 item + 1\<rparr>) (cart st))"
        using inv
        by (intro list_all_update_first) (auto simp: cart_inv_def list_all_iff quantity_or_1_inv)
      with inv p Some show ?thesis
        by (simp add: addToCart_def cart_saveCart cart_inv_def map_ident_update_first)
    qed
  qed
qed

lemma cart_inv_removeFromCart: "cart_inv (cart st) \<Longrightarrow> cart_inv (cart (removeFromCart i st))"
  by (simp add: removeFromCart_def cart_saveCart cart_inv_filter)

lemma filter_update_first:
  "(\<And>x. P (f x) = P x) \<Longrightarrow> filter (\<lambda>x. \<not> P x) (update_first P f c) = filter (\<lambda>x. \<not> P x) c"
  by (induction c) simp_all

lemma cart_changeQty_removed:
  assumes "find (\<lambda>l. ident l = i) (cart st) = Some item" and "quantity_or_1 item + delta \<le> 0"
  shows "cart (changeQty i delta st) = filter (\<lambda>l. ident l \<noteq> i) (cart st)"
  using assms filter_update_first [of "\<lambda>l. ident l = i" "\<lambda>l. l\<lparr>quantity := quantity_or_1 l + delta\<rparr>" "cart st"]
  by (simp add: changeQty_def removeFromCart_def cart_saveCart Let_def)

lemma cart_inv_changeQty: "cart_inv (cart st) \<Longrightarrow> cart_inv (cart (changeQty i delta st))"
proof -
  assume inv: "cart_inv (cart st)"
  show ?thesis
  proof (cases "find (\<lambda>l. ident l = i) (cart st)")
    case None
    with inv show ?thesis by (simp add: changeQty_def)
  next
    case (Some item)
    show ?thesis
    proof (cases "quantity_or_1 item + delta \<le> 0")
      case True
      with inv Some show ?thesis
        by (simp add: cart_changeQty_removed cart_inv_filter)
    next
      case False
      from Some have m: "item \<in> set (cart st)" "ident item = i"
        using find_in_set by fastforce+
      have q: "\<And>x. x \<in> set (cart st) \<Longrightarrow> ident x = i \<Longrightarrow> x = item"
        using inv m by (auto simp: cart_inv_def distinct_map inj_on_def)
      have "list_all (\<lambda>item. 1 \<le> quantity item)
              (update_first (\<lambda>l. ident l = i)
                 (\<lambda>l. l\<lparr>quantity := quantity_or_1 l + delta\<rparr>) (cart st))"
        using inv False q
        by (intro list_all_update_first) (auto simp: cart_inv_def list_all_iff)
      with inv Some False show ?thesis
        by (simp add: changeQty_def cart_saveCart cart_inv_def map_ident_update_first Let_def)
    qed
  qed
qed

lemma cart_inv_clearCart: "cart_inv (cart (clearCart st))"
  by (simp add: clearCart_def cart_saveCart cart_inv_def)

lemma cart_inv_apply_op: "cart_inv (cart st) \<Longrightarrow> cart_inv (cart (apply_op st op))"
  by (cases op)
     (simp_all add: cart_inv_addToCart cart_inv_removeFromCart cart_inv_changeQty cart_inv_clearCart)



lemma update_first_append_new:
  "find P c = None \<Longrightarrow> P x \<Longrightarrow> update_first P f (c @ [x]) = c @ [f x]"
  by (induction c) (simp_all split: if_splits)

lemma find_append_new:
  "find P c = None \<Longrightarrow> P x \<Longrightarrow> find P (c @ [x]) = Some x"
  by (induction c) (simp_all split: if_splits)

lemma addToCart_twice:
  assumes p: "find (\<lambda>p. ident p = i) (allProducts st) = Some p"
    and n: "find (\<lambda>item. ident item = i) (cart st) = None"
  shows "cart (addToCart i (addToCart i st)) = cart st @ [new_line p 2]"
proof -
  from p have ip: "ident p = i"
    using find_in_set by fastforce
  have 1: "addToCart i st = saveCart (st\<lparr>cart := cart st @ [new_line p 1]\<rparr>)"
    using p n by (simp add: addToCart_def)
  have il: "ident (new_line p 1) = i"
    using ip by (simp add: new_line_def)
  have f: "find (\<lambda>item. ident item = i) (cart st @ [new_line p 1]) = Some (new_line p 1)"
    using n il by (rule find_append_new)
  have u: "update_first (\<lambda>item. ident item = i) (\<lambda>item. item\<lparr>quantity := quantity_or_1 item + 1\<rparr>)
             (cart st @ [new_line p 1]) = cart st @ [(new_line p 1)\<lparr>quantity := quantity_or_1 (new_line p 1) + 1\<rparr>]"
    using n il by (rule update_first_append_new)
  have q: "(new_line p 1)\<lparr>quantity := quantity_or_1 (new_line p 1) + 1\<rparr> = new_line p 2"
    by (simp add: new_line_def quantity_or_1_def or_1_def)
  let ?st1 = "saveCart (st\<lparr>cart := cart st @ [new_line p 1]\<rparr>)"
  have c1: "cart ?st1 = cart st @ [new_line p 1]" and a1: "allProducts ?st1 = allProducts st"
    by (simp_all add: cart_saveCart allProducts_saveCart)
  have "cart (addToCart i ?st1) = cart st @ [new_line p 2]"
    using p f u q by (simp add: addToCart_def c1 a1 cart_saveCart)
  then show ?thesis
    by (simp only: 1)
qed

lemma page_fields:
  "cart page = []" "allProducts page = [headphones, mug]"
  by (simp_all add: page_def)

lemma cart_inv_page: "cart_inv (cart page)"
  by (simp add: page_fields cart_inv_def)

lemma find_headphones: "find (\<lambda>p. ident p = ''507f1f77bcf86cd799439011'') (allProducts page) = Some headphones"
  by (simp add: page_fields headphones_fields)

lemma find_mug: "find (\<lambda>p. ident p = ''507f1f77bcf86cd799439012'') (allProducts page) = Some mug"
  by (simp add: page_fields headphones_fields mug_fields)


section \<open>The cart invariant\<close>

text \<open>
  Claim C6. On a cart with at most one line per product id and every quantity at least 1,
  each operation of the cart engine (add, remove, change quantity, clear) gives a cart
  with the same two properties. Adding a product of the loaded list that the cart does not
  hold twice appends one line with quantity 2. Changing the quantity of a line by a delta
  that brings it to 0 or below (in particular by minus its quantity) removes the line: no
  line with that id is left.
\<close>

theorem cart_operations_keep_invariant:
  assumes "cart_inv (cart st)"
  shows "cart_inv (cart (apply_op st op)) \<and>
     (\<forall>p. find (\<lambda>p. ident p = i) (allProducts st) = Some p \<and>
          find (\<lambda>item. ident item = i) (cart st) = None \<longrightarrow>
          cart (addToCart i (addToCart i st)) = cart st @ [new_line p 2]) \<and>
     (\<forall>item. find (\<lambda>l. ident l = i) (cart st) = Some item \<and> quantity item + delta \<le> 0 \<longrightarrow>
          cart (changeQty i delta st) = filter (\<lambda>l. ident l \<noteq> i) (cart st) \<and>
          find (\<lambda>l. ident l = i) (cart (changeQty i delta st)) = None)"
proof (intro conjI allI impI)
  show "cart_inv (cart (apply_op st op))"
    using assms by (rule cart_inv_apply_op)
next
  fix p
  assume "find (\<lambda>p. ident p = i) (allProducts st) = Some p \<and>
          find (\<lambda>item. ident item = i) (cart st) = None"
  then show "cart (addToCart i (addToCart i st)) = cart st @ [new_line p 2]"
    by (simp add: addToCart_twice)
next
  fix item
  assume a: "find (\<lambda>l. ident l = i) (cart st) = Some item \<and> quantity item + delta \<le> 0"
  then have "item \<in> set (cart st)"
    using find_in_set by fastforce
  with assms have "quantity_or_1 item = quantity item"
    by (simp add: cart_inv_member quantity_or_1_inv)
  with a show c: "cart (changeQty i delta st) = filter (\<lambda>l. ident l \<noteq> i) (cart st)"
    by (simp add: cart_changeQty_removed)
  show "find (\<lambda>l. ident l = i) (cart (changeQty i delta st)) = None"
    by (simp add: c find_None_iff)
qed

theorem cart_operations_keep_invariant_witness:
  "cart_inv (cart page) \<and>
   cart_inv (cart (apply_op page (Add ''507f1f77bcf86cd799439011''))) \<and>
   cart (addToCart ''507f1f77bcf86cd799439011'' (addToCart ''507f1f77bcf86cd799439011'' page)) =
     [new_line headphones 2] \<and>
   cart (changeQty ''507f1f77bcf86cd799439011'' (- 2)
          (addToCart ''507f1f77bcf86cd799439011'' (addToCart ''507f1f77bcf86cd799439011'' page))) = []"
proof -
  let ?h = "''507f1f77bcf86cd799439011''"
  let ?st = "addToCart ?h (addToCart ?h page)"
  have 1: "cart_inv (cart (apply_op page (Add ?h)))"
    and 2: "cart ?st = [new_line headphones 2]"
    using cart_operations_keep_invariant [OF cart_inv_page, of "Add ?h" ?h "- 2"] find_headphones
    by (simp_all add: page_fields)
  have inv: "cart_inv (cart ?st)"
    by (simp add: 2 cart_inv_def new_line_def headphones_fields)
  have f: "find (\<lambda>l. ident l = ?h) (cart ?st) = Some (new_line headphones 2)"
    by (simp add: 2 new_line_def headphones_fields)
  have 3: "cart (changeQty ?h (- 2) ?st) = []"
    using cart_operations_keep_invariant [OF inv, of Clear ?h "- 2"] f
    by (simp add: 2 new_line_def headphones_fields)
  from cart_inv_page 1 2 3 show ?thesis
    by simp
qed



section \<open>The cart total\<close>




lemma cart_add_headphones: "cart (addToCart ''507f1f77bcf86cd799439011'' page) = [new_line headphones 1]"
  using find_headphones by (simp add: addToCart_def page_fields cart_saveCart)

lemma cart_session: "cart (foldl apply_op page session) = [new_line headphones 1, new_line mug 3]"
  apply (simp add: session_def)
  apply (simp add: addToCart_def removeFromCart_def changeQty_def cart_saveCart allProducts_saveCart page_fields
       headphones_fields mug_fields new_line_def quantity_or_1_def or_1_def Let_def)
  done



section \<open>Adding a product that is not loaded\<close>

text \<open>
  Claim C10. When no product of the loaded list has the given id, \<open>addToCart\<close> returns
  the state as it was: the cart, the content of \<open>localStorage\<close> and the number of
  \<open>setItem\<close> calls are unchanged, so nothing is written.
\<close>

theorem addToCart_unknown_product:
  assumes "\<forall>p\<in>set (allProducts st). ident p \<noteq> product_id"
  shows "addToCart product_id st = st \<and>
         cart (addToCart product_id st) = cart st \<and>
         localStorage (addToCart product_id st) = localStorage st \<and>
         setItem_calls (addToCart product_id st) = setItem_calls st"
proof -
  from assms have "find (\<lambda>p. ident p = product_id) (allProducts st) = None"
    by (simp add: find_None_iff)
  then show ?thesis
    by (simp add: addToCart_def)
qed

theorem addToCart_unknown_product_witness:
  "addToCart ''507f1f77bcf86cd799439099'' page = page \<and> setItem_calls page = 0 \<and>
   setItem_calls (addToCart ''507f1f77bcf86cd799439011'' page) = 1"
proof -
  have "\<forall>p\<in>set (allProducts page). ident p \<noteq> ''507f1f77bcf86cd799439099''"
    by (simp add: page_fields headphones_fields mug_fields)
  from addToCart_unknown_product [OF this] have "addToCart ''507f1f77bcf86cd799439099'' page = page"
    by simp
  moreover have "setItem_calls page = 0"
    by (simp add: page_def)
  moreover have "setItem_calls (addToCart ''507f1f77bcf86cd799439011'' page) = 1"
    using find_headphones by (simp add: addToCart_def page_fields saveCart_def page_def)
  ultimately show ?thesis
    by simp
qed



section \<open>A failed checkout keeps the cart\<close>

lemma verify_items_find_ok:
  "verify_items db (item # rest) t0 v0 tr0 = Completed t v tr \<Longrightarrow> \<not> find_fails db"
  by (auto simp: findOne_def split: sum.splits option.splits if_splits)

lemma checkout_invalid:
  assumes "\<not> passes_validation req"
  shows "\<exists>msg. checkout e db req = (error_response 400 msg, db, [])"
proof (cases "\<not> truthy (property req ''customer'') \<or> \<not> truthy (property req ''items'') \<or>
        \<not> isArray (property req ''items'') \<or> length (elements (property req ''items'')) = 0")
  case True
  then show ?thesis
    by (auto simp: checkout_def)
next
  case False
  then obtain c where c: "property req ''customer'' = Some c"
    by (cases "property req ''customer''") auto
  with assms False have "\<not> truthy (property c ''name'') \<or> \<not> truthy (property c ''email'')"
    by (auto simp: passes_validation_def customer_field_def)
  with False c show ?thesis
    by (auto simp: checkout_def)
qed

lemma checkout_201_conditions:
  assumes "checkout e db req = (r, db', tr)" and "status_code r = 201"
  shows "passes_validation req \<and> (\<forall>it\<in>set (elements (property req ''items'')). resolves db it) \<and>
         \<not> find_fails db \<and> \<not> insert_fails db"
proof -
  from checkout_201 [OF assms] obtain c t v tr0 ord where
    c: "property req ''customer'' = Some c" and
    v: "verify_items db (elements (property req ''items'')) 0 [] [] = Completed t v tr0" and
    i: "\<not> insert_fails db"
    by blast
  have pv: "passes_validation req"
  proof (rule ccontr)
    assume "\<not> passes_validation req"
    from checkout_invalid [OF this, of e db] assms show False
      by (auto simp: error_response_def)
  qed
  then obtain item rest where "elements (property req ''items'') = item # rest"
    by (cases "elements (property req ''items'')") (auto simp: passes_validation_def)
  with v have "\<not> find_fails db"
    using verify_items_find_ok by metis
  with pv i verify_items_Completed [OF v] show ?thesis
    by simp
qed

lemma checkout_status:
  "checkout e db req = (r, db', tr) \<Longrightarrow> status_code r = 201 \<or> status_code r = 400 \<or> status_code r = 500"
  using checkout_cases [of e db req r db' tr] by (auto simp: order_placed_def)


text \<open>
  Claim C5. \<open>submitOrder\<close> leaves the whole client state (the cart and its persisted copy)
  as it was when the fetch is rejected, when the response status is not 2xx, or when the
  form has no name or no email. Against the server of this repository that covers every
  failure of the checkout: a request that does not pass validation, an item with no
  matching product, a failing catalog lookup and a failing order insert. Whenever
  \<open>submitOrder\<close> changes the state, a response with a 2xx status was received, and the
  change is \<open>clearCart\<close>.
\<close>

theorem failed_checkout_keeps_cart:
  "(fetch (order_request form st) = Rejected \<or>
    (\<exists>code data. fetch (order_request form st) = Fetched code data \<and> \<not> res_ok code) \<or>
    trim (custName form) = [] \<or> trim (custEmail form) = []
      \<longrightarrow> submitOrder form fetch st = st) \<and>
   (\<not> passes_validation (order_request form st) \<or>
    (\<exists>it\<in>set (elements (property (order_request form st) ''items'')). \<not> resolves db it) \<or>
    find_fails db \<or> insert_fails db
      \<longrightarrow> submitOrder form (titan_server e db) st = st) \<and>
   (submitOrder form fetch st \<noteq> st
      \<longrightarrow> (\<exists>code data. fetch (order_request form st) = Fetched code data \<and> res_ok code) \<and>
          submitOrder form fetch st = clearCart st)"
proof (intro conjI impI)
  assume "fetch (order_request form st) = Rejected \<or>
    (\<exists>code data. fetch (order_request form st) = Fetched code data \<and> \<not> res_ok code) \<or>
    trim (custName form) = [] \<or> trim (custEmail form) = []"
  then show "submitOrder form fetch st = st"
    by (auto simp: submitOrder_def)
next
  assume a: "\<not> passes_validation (order_request form st) \<or>
    (\<exists>it\<in>set (elements (property (order_request form st) ''items'')). \<not> resolves db it) \<or>
    find_fails db \<or> insert_fails db"
  obtain r db' tr where ev: "checkout e db (order_request form st) = (r, db', tr)"
    by (cases "checkout e db (order_request form st)")
  with a have "status_code r \<noteq> 201"
    using checkout_201_conditions [OF ev] by blast
  with checkout_status [OF ev] have "\<not> res_ok (status_code r)"
    by (auto simp: res_ok_def)
  with ev show "submitOrder form (titan_server e db) st = st"
    by (simp add: submitOrder_def titan_server_def)
next
  assume "submitOrder form fetch st \<noteq> st"
  then show "\<exists>code data. fetch (order_request form st) = Fetched code data \<and> res_ok code"
    by (auto simp: submitOrder_def split: if_splits fetch_result.splits)
next
  assume "submitOrder form fetch st \<noteq> st"
  then show "submitOrder form fetch st = clearCart st"
    by (auto simp: submitOrder_def split: if_splits fetch_result.splits)
qed


lemma cart_basket: "cart basket = [new_line headphones 1]"
  by (simp add: basket_def cart_add_headphones)

lemma trim_ada_form: "trim (custName ada_form) = ''Ada''" "trim (custEmail ada_form) = ''Ada@Example.com''"
  "trim (custAddress ada_form) = []"
  by (simp_all add: ada_form_def trim_Ada) code_simp+

lemma qty_1: "qty (Some (JNum 1)) = 1"
  by code_simp

lemma order_request_basket:
  "order_request ada_form basket =
     with_total (JNum (getCartTotal basket))
       (request (JObj [(''name'', JStr ''Ada''), (''email'', JStr ''Ada@Example.com''), (''address'', JStr [])])
          [json_of_line (new_line headphones 1)])"
  by (simp add: order_request_def trim_ada_form with_total_request json_of_cart_def cart_basket)

lemma checkout_basket:
  "checkout clock shop (order_request ada_form basket) =
    (let ord = \<lparr>customer = \<lparr>cust_name = ''Ada'', cust_email = ''ada@example.com'', cust_address = JStr []\<rparr>,
               items = [\<lparr>productId = ''507f1f77bcf86cd799439011'', item_name = ''Headphones'',
                         item_price = 2499 / 100, item_image = ''/img/headphones.png'', item_quantity = 1\<rparr>],
               total = 2499 / 100, status = ''pending'', createdAt = now clock\<rparr>
     in (\<lparr>status_code = 201,
          body = JObj [(''orderId'', JStr (new_id clock)), (''total'', JNum (2499 / 100)),
                       (''message'', JStr ''Order placed successfully'')]\<rparr>,
         shop\<lparr>orders := [(new_id clock, ord)]\<rparr>,
         [FindProduct ''507f1f77bcf86cd799439011'', InsertOrder ord]))"
  unfolding order_request_basket checkout_with_total
  by (simp add: checkout_def sample_simps qty_1 json_of_line_def json_of_product_fields_def
        new_line_def headphones_def)

lemma submitOrder_success_clears_cart:
  "submitOrder ada_form (titan_server clock shop) basket = clearCart basket \<and>
   cart (submitOrder ada_form (titan_server clock shop) basket) = []"
  by (simp add: submitOrder_def trim_ada_form titan_server_def checkout_basket Let_def res_ok_def
        clearCart_def cart_saveCart)

theorem failed_checkout_keeps_cart_witness:
  "cart basket = [new_line headphones 1] \<and>
   submitOrder ada_form (\<lambda>req. Rejected) basket = basket \<and>
   submitOrder ada_form (\<lambda>req. Fetched 500 (JObj [])) basket = basket \<and>
   submitOrder ada_form (titan_server clock (shop\<lparr>insert_fails := True\<rparr>)) basket = basket \<and>
   submitOrder (ada_form\<lparr>custName := []\<rparr>) (titan_server clock shop) basket = basket"
proof (intro conjI)
  show "cart basket = [new_line headphones 1]"
    by (rule cart_basket)
  show "submitOrder ada_form (\<lambda>req. Rejected) basket = basket"
    using failed_checkout_keeps_cart [of "\<lambda>req. Rejected" ada_form basket]
    by simp
  show "submitOrder ada_form (\<lambda>req. Fetched 500 (JObj [])) basket = basket"
    using failed_checkout_keeps_cart [of "\<lambda>req. Fetched 500 (JObj [])" ada_form basket]
    by (simp add: res_ok_def)
  show "submitOrder ada_form (titan_server clock (shop\<lparr>insert_fails := True\<rparr>)) basket = basket"
    using failed_checkout_keeps_cart [of _ ada_form basket "shop\<lparr>insert_fails := True\<rparr>" clock]
    by simp
  show "submitOrder (ada_form\<lparr>custName := []\<rparr>) (titan_server clock shop) basket = basket"
    using failed_checkout_keeps_cart [of "titan_server clock shop" "ada_form\<lparr>custName := []\<rparr>" basket]
    by (simp add: trim_def)
qed



section \<open>Loading the cart\<close>

lemma JSON_parse_null: "JSON_parse ''null'' = Some JNull"
  by code_simp

lemma JSON_parse_empty_object: "JSON_parse ''{}'' = Some (JObj [])"
  by code_simp

lemma JSON_parse_five: "JSON_parse ''5'' = Some (JNum 5)"
  by code_simp

lemma JSON_parse_garbage: "JSON_parse ''{oops'' = None"
  by code_simp

text \<open>A missing key, a text that does not parse and a falsy value all give the empty cart.\<close>

lemma loadCart_missing: "ls CART_KEY = None \<Longrightarrow> loadCart ls = JArr []"
  by (simp add: loadCart_def JSON_parse_null)

lemma loadCart_unparseable:
  "ls CART_KEY = Some text \<Longrightarrow> JSON_parse text = None \<Longrightarrow> loadCart ls = JArr []"
  by (simp add: loadCart_def)

lemma loadCart_falsy:
  "ls CART_KEY = Some text \<Longrightarrow> JSON_parse text = Some v \<Longrightarrow> \<not> truthy (Some v) \<Longrightarrow>
     loadCart ls = JArr []"
  by (simp add: loadCart_def)

lemma loadCart_truthy:
  "ls CART_KEY = Some text \<Longrightarrow> JSON_parse text = Some v \<Longrightarrow> truthy (Some v) \<Longrightarrow>
     loadCart ls = v"
  by (simp add: loadCart_def)

text \<open>
  Claim C9 fails on the code. A stored text that is valid JSON but no array, such as
  \<open>{}\<close> or \<open>5\<close>, parses to a truthy value, so \<open>|| []\<close> does not apply and \<open>loadCart\<close>
  returns that value: not the empty cart. A text that does not parse does give the empty
  cart.
\<close>

theorem loadCart_returns_stored_non_array:
  "loadCart [CART_KEY \<mapsto> ''{}''] = JObj [] \<and> loadCart [CART_KEY \<mapsto> ''5''] = JNum 5 \<and>
   loadCart [CART_KEY \<mapsto> ''{oops''] = JArr [] \<and> loadCart Map.empty = JArr []"
  by (simp add: loadCart_def JSON_parse_empty_object JSON_parse_five JSON_parse_garbage
        JSON_parse_null)


section \<open>JSON.parse reads back what JSON.stringify writes\<close>

subsection \<open>Digits\<close>

lemma less_16_cases:
  "(d::nat) < 16 \<Longrightarrow> d = 0 \<or> d = 1 \<or> d = 2 \<or> d = 3 \<or> d = 4 \<or> d = 5 \<or> d = 6 \<or> d = 7 \<or>
     d = 8 \<or> d = 9 \<or> d = 10 \<or> d = 11 \<or> d = 12 \<or> d = 13 \<or> d = 14 \<or> d = 15"
  by arith

lemma digit_of_digit_char: "d < 16 \<Longrightarrow> digit_of (digit_char d) = Some d"
  by (drule less_16_cases) (auto simp: digit_of_def digit_char_def)

lemma is_digit_digit_char: "d < 10 \<Longrightarrow> is_digit (digit_char d)"
  by (simp add: is_digit_def radix_digit_def digit_of_digit_char)

lemma is_hex_digit_char: "d < 16 \<Longrightarrow> is_hex (digit_char d)"
  by (simp add: is_hex_def radix_digit_def digit_of_digit_char)

lemma foldl_digits:
  "foldl (\<lambda>acc c. acc * R + g c) a ys = a * R ^ length ys + foldl (\<lambda>acc c. acc * R + g c) (0::nat) ys"
proof (induction ys arbitrary: a)
  case Nil
  then show ?case by simp
next
  case (Cons y ys)
  have 1: "foldl (\<lambda>acc c. acc * R + g c) a (y # ys) =
           (a * R + g y) * R ^ length ys + foldl (\<lambda>acc c. acc * R + g c) 0 ys"
    using Cons.IH [of "a * R + g y"] by simp
  have 2: "foldl (\<lambda>acc c. acc * R + g c) 0 (y # ys) =
           g y * R ^ length ys + foldl (\<lambda>acc c. acc * R + g c) 0 ys"
    using Cons.IH [of "g y"] by simp
  show ?case
    unfolding 1 2 by (simp add: algebra_simps)
qed

lemma digits_value_append:
  "digits_value R (xs @ ys) = digits_value R xs * R ^ length ys + digits_value R ys"
  unfolding digits_value_def foldl_append
  by (rule foldl_digits)

lemma digits_value_Nil: "digits_value R [] = 0"
  by (simp add: digits_value_def)

lemma digits_value_single: "d < 16 \<Longrightarrow> digits_value R [digit_char d] = d"
  by (simp add: digits_value_def digit_of_digit_char)

lemma digit_of_0: "digit_of CHR ''0'' = Some 0"
  by (simp add: digit_of_def)

lemma digits_value_zeros: "digits_value 10 (replicate z CHR ''0'') = 0"
proof (induction z)
  case 0
  then show ?case by (simp add: digits_value_Nil)
next
  case (Suc z)
  have "replicate (Suc z) CHR ''0'' = replicate z CHR ''0'' @ [CHR ''0'']"
    by (simp add: replicate_append_same)
  then show ?case
    using Suc by (simp only: digits_value_append) (simp add: digits_value_def digit_of_0)
qed

lemma show_nat_digits: "list_all is_digit (show_nat n)"
  by (induction n rule: show_nat.induct) (subst show_nat.simps, simp add: is_digit_digit_char)

lemma show_nat_value: "digits_value 10 (show_nat n) = n"
proof (induction n rule: show_nat.induct)
  case (1 n)
  show ?case
  proof (cases "n < 10")
    case True
    then show ?thesis
      by (subst show_nat.simps) (simp add: digits_value_single)
  next
    case False
    with "1" show ?thesis
      by (subst show_nat.simps) (simp add: digits_value_append digits_value_single)
  qed
qed

lemma show_nat_not_Nil: "show_nat n \<noteq> []"
  by (subst show_nat.simps) simp

lemma show_nat_0: "show_nat 0 = ''0''"
  by (subst show_nat.simps) (simp add: digit_char_def)

lemma digit_char_0: "d < 10 \<Longrightarrow> digit_char d = CHR ''0'' \<longleftrightarrow> d = 0"
proof -
  assume "d < 10"
  then have "d < 16" by simp
  from less_16_cases [OF this] show ?thesis
    by (auto simp: digit_char_def)
qed

lemma show_nat_hd: "0 < n \<Longrightarrow> hd (show_nat n) \<noteq> CHR ''0''"
proof (induction n rule: show_nat.induct)
  case (1 n)
  show ?case
  proof (cases "n < 10")
    case True
    with "1.prems" show ?thesis
      by (subst show_nat.simps) (simp add: digit_char_0)
  next
    case False
    then have "0 < n div 10" by simp
    with False "1.IH" show ?thesis
      by (subst show_nat.simps) (simp add: show_nat_not_Nil)
  qed
qed


lemma takeWhile_digits:
  "list_all is_digit ds \<Longrightarrow> (after = [] \<or> \<not> is_digit (hd after)) \<Longrightarrow> takeWhile is_digit (ds @ after) = ds"
  by (cases after) (auto simp: list_all_iff takeWhile_append)

lemma not_digit_chars:
  "\<not> is_digit CHR ''.''" "\<not> is_digit CHR ''e''" "\<not> is_digit CHR ''E''" "\<not> is_digit CHR ''-''"
  "\<not> is_digit CHR ''+''" "\<not> is_digit CHR '',''" "\<not> is_digit CHR '']''" "\<not> is_digit CHR ''}''"
  by (simp_all add: is_digit_def radix_digit_def digit_of_def)

lemma is_digit_0: "is_digit CHR ''0''"
  by (simp add: is_digit_def radix_digit_def digit_of_def)

lemma parse_int_part_digits:
  assumes "list_all is_digit ip" "ip \<noteq> []" "ip = ''0'' \<or> hd ip \<noteq> CHR ''0''"
    and "after = [] \<or> \<not> is_digit (hd after)"
  shows "parse_int_part (ip @ after) = Some (digits_value 10 ip, after)"
proof -
  have "(if take 1 (ip @ after) = ''0'' then ''0'' else takeWhile is_digit (ip @ after)) = ip"
  proof (cases "ip = ''0''")
    case True
    then show ?thesis by simp
  next
    case False
    with assms(3) have h: "hd ip \<noteq> CHR ''0''" by simp
    from assms(2) obtain c cs where ip: "ip = c # cs" by (cases ip) auto
    with h have "take 1 (ip @ after) \<noteq> ''0''" by simp
    with takeWhile_digits [OF assms(1) assms(4)] show ?thesis by simp
  qed
  with assms(2) show ?thesis
    by (simp add: parse_int_part_def)
qed

lemma parse_frac_part_digits:
  assumes "list_all is_digit fp" "fp \<noteq> []" "after = [] \<or> \<not> is_digit (hd after)"
  shows "parse_frac_part (''.'' @ fp @ after) = Some ((digits_value 10 fp, length fp), after)"
  using takeWhile_digits [OF assms(1) assms(3)] assms(2)
  by (simp add: parse_frac_part_def)

lemma parse_frac_part_none:
  "take 1 after \<noteq> ''.'' \<Longrightarrow> parse_frac_part after = Some ((0, 0), after)"
  by (simp add: parse_frac_part_def)

lemma parse_exp_part_digits:
  assumes "list_all is_digit ep" "ep \<noteq> []" "after = [] \<or> \<not> is_digit (hd after)"
  shows "parse_exp_part (''e'' @ (if exp_neg then ''-'' else ''+'') @ ep @ after) =
           Some ((exp_neg, digits_value 10 ep), after)"
  using takeWhile_digits [OF assms(1) assms(3)] assms(2)
  by (simp add: parse_exp_part_def)

lemma parse_exp_part_none:
  "take 1 after \<noteq> ''e'' \<Longrightarrow> take 1 after \<noteq> ''E'' \<Longrightarrow> parse_exp_part after = Some ((False, 0), after)"
  by (simp add: parse_exp_part_def)

lemma number_end_facts:
  assumes "number_end rest"
  shows "rest = [] \<or> \<not> is_digit (hd rest)" "take 1 rest \<noteq> ''.''" "take 1 rest \<noteq> ''e''"
    "take 1 rest \<noteq> ''E''"
  using assms by (cases rest; simp add: number_end_def)+


lemma parse_number_signed:
  assumes "is_digit c"
  shows "parse_number ((if neg then ''-'' else []) @ c # cs) =
           (case parse_unsigned (c # cs) of
              None \<Rightarrow> None
            | Some (v, rest) \<Rightarrow> Some (if neg then - v else v, rest))"
proof -
  from assms have "c \<noteq> CHR ''-''"
    using not_digit_chars by auto
  then show ?thesis
    by (cases neg; cases "parse_unsigned (c # cs)") (auto simp: parse_number_def)
qed

lemma pow10_div: "(x::rat) / 10 ^ j = x * 10 powi (- int j)"
  by (simp add: power_int_minus_divide)

lemma pow10_combine: "(10::rat) powi a * 10 powi b = 10 powi (a + b)"
  by (simp add: power_int_add)

lemma parse_unsigned_plain_int:
  assumes "0 < m" "number_end rest"
  shows "parse_unsigned (show_nat m @ replicate z CHR ''0'' @ rest) =
           Some (of_nat m * 10 powi (int z), rest)"
proof -
  let ?ip = "show_nat m @ replicate z CHR ''0''"
  have d: "list_all is_digit ?ip"
    using show_nat_digits [of m] by (auto simp: is_digit_0 list_all_iff)
  have h: "?ip = ''0'' \<or> hd ?ip \<noteq> CHR ''0''"
    using show_nat_hd [OF assms(1)] by (simp add: show_nat_not_Nil)
  have i: "parse_int_part (?ip @ rest) = Some (digits_value 10 ?ip, rest)"
    using d _ h number_end_facts(1) [OF assms(2)]
    by (rule parse_int_part_digits) (simp add: show_nat_not_Nil)
  have v: "digits_value 10 ?ip = m * 10 ^ z"
    by (simp add: digits_value_append show_nat_value digits_value_zeros)
  show ?thesis
    using i v number_end_facts [OF assms(2)]
    by (simp add: parse_unsigned_def parse_frac_part_none parse_exp_part_none)
qed

lemma parse_unsigned_point:
  assumes "0 < m" "number_end rest" "0 < j" "j < length (show_nat m)"
  shows "parse_unsigned (take j (show_nat m) @ ''.'' @ drop j (show_nat m) @ rest) =
           Some (of_nat m * 10 powi (int j - int (length (show_nat m))), rest)"
proof -
  let ?s = "show_nat m"
  let ?ip = "take j ?s" and ?fp = "drop j ?s"
  have sd: "list_all is_digit ?s" by (rule show_nat_digits)
  have d: "list_all is_digit ?ip" "list_all is_digit ?fp"
    using sd by (auto simp: list_all_iff dest: in_set_takeD in_set_dropD)
  have ne: "?ip \<noteq> []" "?fp \<noteq> []"
    using assms(3,4) by (auto simp: show_nat_not_Nil)
  have h: "?ip = ''0'' \<or> hd ?ip \<noteq> CHR ''0''"
    using show_nat_hd [OF assms(1)] assms(3) by (simp add: hd_take)
  have i: "parse_int_part (?ip @ ''.'' @ ?fp @ rest) = Some (digits_value 10 ?ip, ''.'' @ ?fp @ rest)"
    using d(1) ne(1) h by (rule parse_int_part_digits) (simp add: not_digit_chars)
  have f: "parse_frac_part (''.'' @ ?fp @ rest) = Some ((digits_value 10 ?fp, length ?fp), rest)"
    using d(2) ne(2) number_end_facts(1) [OF assms(2)] by (rule parse_frac_part_digits)
  have "digits_value 10 (?ip @ ?fp) = digits_value 10 ?ip * 10 ^ length ?fp + digits_value 10 ?fp"
    by (rule digits_value_append)
  then have v: "m = digits_value 10 ?ip * 10 ^ length ?fp + digits_value 10 ?fp"
    by (simp add: show_nat_value)
  have l: "(10::rat) powi (- int (length ?fp)) = 10 powi (int j - int (length ?s))"
    using assms(4) by (simp add: of_nat_diff)
  have "(of_nat (digits_value 10 ?ip) + of_nat (digits_value 10 ?fp) / 10 ^ length ?fp :: rat) =
        of_nat m / 10 ^ length ?fp"
    by (subst (3) v) (simp add: field_simps)
  also have "\<dots> = of_nat m * 10 powi (int j - int (length ?s))"
    by (simp only: pow10_div l)
  finally show ?thesis
    using i f number_end_facts [OF assms(2)]
    by (simp add: parse_unsigned_def parse_exp_part_none)
qed


lemma parse_unsigned_small:
  assumes "0 < m" "number_end rest"
  shows "parse_unsigned (''0.'' @ replicate z CHR ''0'' @ show_nat m @ rest) =
           Some (of_nat m * 10 powi (- int z - int (length (show_nat m))), rest)"
proof -
  let ?s = "show_nat m"
  let ?fp = "replicate z CHR ''0'' @ ?s"
  have d: "list_all is_digit ?fp"
    using show_nat_digits [of m] by (auto simp: is_digit_0 list_all_iff)
  have i: "parse_int_part (''0'' @ ''.'' @ ?fp @ rest) = Some (digits_value 10 ''0'', ''.'' @ ?fp @ rest)"
    by (rule parse_int_part_digits) (simp_all add: is_digit_0 not_digit_chars)
  have f: "parse_frac_part (''.'' @ ?fp @ rest) = Some ((digits_value 10 ?fp, length ?fp), rest)"
    using d _ number_end_facts(1) [OF assms(2)]
    by (rule parse_frac_part_digits) (simp add: show_nat_not_Nil)
  have v: "digits_value 10 ?fp = m"
    by (simp add: digits_value_append digits_value_zeros show_nat_value)
  have z0: "digits_value 10 ''0'' = 0"
    by (simp add: digits_value_def digit_of_0)
  have l: "(10::rat) powi (- int (length ?fp)) = 10 powi (- int z - int (length ?s))"
    by simp
  have "(of_nat m / 10 ^ length ?fp :: rat) = of_nat m * 10 powi (- int z - int (length ?s))"
    by (simp only: pow10_div l)
  then show ?thesis
    using i f v z0 number_end_facts [OF assms(2)]
    by (simp add: parse_unsigned_def parse_exp_part_none)
qed

lemma pow10_exp:
  "(if \<not> 0 \<le> e then 1 / 10 ^ nat \<bar>e\<bar> else 10 ^ nat \<bar>e\<bar>) = (10::rat) powi e"
  by (auto simp: power_int_def field_simps power_inverse [symmetric] simp del: power_inverse)

lemma parse_unsigned_exp1:
  assumes "0 < m" "number_end rest" "length (show_nat m) = 1"
  shows "parse_unsigned (show_nat m @ ''e'' @ (if 0 \<le> e then ''+'' else ''-'') @ show_nat (nat \<bar>e\<bar>) @ rest) =
           Some (of_nat m * 10 powi e, rest)"
proof -
  let ?s = "show_nat m" and ?ep = "show_nat (nat \<bar>e\<bar>)"
  let ?ex = "''e'' @ (if \<not> 0 \<le> e then ''-'' else ''+'') @ ?ep @ rest"
  have i: "parse_int_part (?s @ ?ex) = Some (digits_value 10 ?s, ?ex)"
    using show_nat_digits [of m] show_nat_not_Nil [of m] show_nat_hd [OF assms(1)]
    by (intro parse_int_part_digits) (simp_all add: not_digit_chars)
  have f: "parse_frac_part ?ex = Some ((0, 0), ?ex)"
    by (rule parse_frac_part_none) simp
  have x: "parse_exp_part ?ex = Some ((\<not> 0 \<le> e, digits_value 10 ?ep), rest)"
    using show_nat_digits show_nat_not_Nil number_end_facts(1) [OF assms(2)]
    by (rule parse_exp_part_digits)
  have "parse_unsigned (?s @ ?ex) = Some (of_nat m * 10 powi e, rest)"
    using i f x pow10_exp [of e]
    by (simp add: parse_unsigned_def show_nat_value del: append_Cons)
  moreover have "(if 0 \<le> e then ''+'' else ''-'') = (if \<not> 0 \<le> e then ''-'' else ''+'')"
    by simp
  ultimately show ?thesis
    by (simp only:)
qed

lemma parse_unsigned_exp:
  assumes "0 < m" "number_end rest" "1 < length (show_nat m)"
  shows "parse_unsigned (take 1 (show_nat m) @ ''.'' @ drop 1 (show_nat m) @ ''e'' @
            (if 0 \<le> e then ''+'' else ''-'') @ show_nat (nat \<bar>e\<bar>) @ rest) =
           Some (of_nat m * 10 powi (e + 1 - int (length (show_nat m))), rest)"
proof -
  let ?s = "show_nat m" and ?ep = "show_nat (nat \<bar>e\<bar>)"
  let ?ip = "take 1 ?s" and ?fp = "drop 1 ?s"
  let ?ex = "''e'' @ (if \<not> 0 \<le> e then ''-'' else ''+'') @ ?ep @ rest"
  have sd: "list_all is_digit ?s" by (rule show_nat_digits)
  have d: "list_all is_digit ?ip" "list_all is_digit ?fp"
    using sd by (auto simp: list_all_iff dest: in_set_takeD in_set_dropD)
  have ne: "?ip \<noteq> []" "?fp \<noteq> []"
    using assms(3) by (auto simp: show_nat_not_Nil)
  have h: "?ip = ''0'' \<or> hd ?ip \<noteq> CHR ''0''"
    using show_nat_hd [OF assms(1)] by (simp add: hd_take)
  have i: "parse_int_part (?ip @ ''.'' @ ?fp @ ?ex) = Some (digits_value 10 ?ip, ''.'' @ ?fp @ ?ex)"
    using d(1) ne(1) h by (rule parse_int_part_digits) (simp add: not_digit_chars)
  have f: "parse_frac_part (''.'' @ ?fp @ ?ex) = Some ((digits_value 10 ?fp, length ?fp), ?ex)"
    using d(2) ne(2) by (rule parse_frac_part_digits) (simp add: not_digit_chars)
  have x: "parse_exp_part ?ex = Some ((\<not> 0 \<le> e, digits_value 10 ?ep), rest)"
    using show_nat_digits show_nat_not_Nil number_end_facts(1) [OF assms(2)]
    by (rule parse_exp_part_digits)
  have "digits_value 10 (?ip @ ?fp) = digits_value 10 ?ip * 10 ^ length ?fp + digits_value 10 ?fp"
    by (rule digits_value_append)
  then have v: "m = digits_value 10 ?ip * 10 ^ length ?fp + digits_value 10 ?fp"
    by (simp add: show_nat_value)
  have l: "(10::rat) powi (- int (length ?fp)) = 10 powi (1 - int (length ?s))"
    using assms(3) by (simp add: of_nat_diff)
  have "(of_nat (digits_value 10 ?ip) + of_nat (digits_value 10 ?fp) / 10 ^ length ?fp :: rat) =
        of_nat m / 10 ^ length ?fp"
    by (subst (3) v) (simp add: field_simps)
  also have "\<dots> = of_nat m * 10 powi (1 - int (length ?s))"
    by (simp only: pow10_div l)
  finally have mant: "(of_nat (digits_value 10 ?ip) + of_nat (digits_value 10 ?fp) / 10 ^ length ?fp :: rat) =
        of_nat m * 10 powi (1 - int (length ?s))" .
  have comb: "of_nat m * 10 powi (1 - int (length ?s)) * (10::rat) powi e =
              of_nat m * 10 powi (e + 1 - int (length ?s))"
    by (simp add: mult.assoc pow10_combine algebra_simps)
  have "parse_unsigned (?ip @ ''.'' @ ?fp @ ?ex) =
          Some (of_nat m * 10 powi (e + 1 - int (length ?s)), rest)"
    using i f x pow10_exp [of e] mant comb
    by (simp add: parse_unsigned_def show_nat_value del: append_Cons)
  moreover have "(if 0 \<le> e then ''+'' else ''-'') = (if \<not> 0 \<le> e then ''-'' else ''+'')"
    by simp
  ultimately show ?thesis
    by (simp only:)
qed


lemma parse_unsigned_format:
  assumes "0 < m" "number_end rest"
  shows "parse_unsigned (format_decimal (show_nat m) n @ rest) =
           Some (of_nat m * 10 powi (n - int (length (show_nat m))), rest)"
proof -
  let ?s = "show_nat m"
  let ?k = "int (length ?s)"
  consider (int) "?k \<le> n" "n \<le> 21"
    | (point) "\<not> (?k \<le> n \<and> n \<le> 21)" "0 < n" "n \<le> 21"
    | (small) "\<not> (?k \<le> n \<and> n \<le> 21)" "\<not> (0 < n \<and> n \<le> 21)" "- 6 < n" "n \<le> 0"
    | (exp) "\<not> (?k \<le> n \<and> n \<le> 21)" "\<not> (0 < n \<and> n \<le> 21)" "\<not> (- 6 < n \<and> n \<le> 0)"
    by linarith
  then show ?thesis
  proof cases
    case int
    have "parse_unsigned (?s @ replicate (nat (n - ?k)) CHR ''0'' @ rest) =
            Some (of_nat m * 10 powi (int (nat (n - ?k))), rest)"
      using assms by (rule parse_unsigned_plain_int)
    with int show ?thesis
      by (simp add: format_decimal_def)
  next
    case point
    then have j: "0 < nat n" "nat n < length ?s"
      by linarith+
    have "parse_unsigned (take (nat n) ?s @ ''.'' @ drop (nat n) ?s @ rest) =
            Some (of_nat m * 10 powi (int (nat n) - ?k), rest)"
      using assms j by (rule parse_unsigned_point)
    with point show ?thesis
      by (simp add: format_decimal_def)
  next
    case small
    have "parse_unsigned (''0.'' @ replicate (nat (- n)) CHR ''0'' @ ?s @ rest) =
            Some (of_nat m * 10 powi (- int (nat (- n)) - ?k), rest)"
      using assms by (rule parse_unsigned_small)
    with small show ?thesis
      by (simp add: format_decimal_def)
  next
    case exp
    show ?thesis
    proof (cases "length ?s = 1")
      case True
      have "parse_unsigned (?s @ ''e'' @ (if 0 \<le> n - 1 then ''+'' else ''-'') @
              show_nat (nat \<bar>n - 1\<bar>) @ rest) = Some (of_nat m * 10 powi (n - 1), rest)"
        using assms True by (rule parse_unsigned_exp1)
      with exp True show ?thesis
        by (auto simp: format_decimal_def)
    next
      case False
      then have l: "1 < length ?s"
        using show_nat_not_Nil [of m] by (cases ?s) auto
      have "parse_unsigned (take 1 ?s @ ''.'' @ drop 1 ?s @ ''e'' @
              (if 0 \<le> n - 1 then ''+'' else ''-'') @ show_nat (nat \<bar>n - 1\<bar>) @ rest) =
            Some (of_nat m * 10 powi (n - 1 + 1 - ?k), rest)"
        using assms l by (rule parse_unsigned_exp)
      with exp False show ?thesis
        by (auto simp: format_decimal_def)
    qed
  qed
qed

lemma format_decimal_hd:
  assumes "0 < m"
  shows "\<exists>c cs. format_decimal (show_nat m) n = c # cs \<and> is_digit c"
proof -
  obtain c cs where s: "show_nat m = c # cs"
    using show_nat_not_Nil [of m] by (cases "show_nat m") auto
  with show_nat_digits [of m] have c: "is_digit c"
    by simp
  show ?thesis
    using c by (auto simp: format_decimal_def s Let_def is_digit_0 take_Cons')
qed

lemma trailing_zeros_dvd: "10 ^ trailing_zeros M dvd M"
proof (induction M rule: trailing_zeros.induct)
  case (1 m)
  show ?case
  proof (cases "m \<noteq> 0 \<and> m mod 10 = 0")
    case True
    with "1" have "10 ^ trailing_zeros (m div 10) dvd m div 10"
      by simp
    then have "10 * 10 ^ trailing_zeros (m div 10) dvd 10 * (m div 10)"
      by (rule mult_dvd_mono [OF dvd_refl])
    with True show ?thesis
      by (subst trailing_zeros.simps) (simp add: mod_eq_0_iff_dvd)
  next
    case False
    then show ?thesis
      by (subst trailing_zeros.simps) auto
  qed
qed

lemma parse_number_zero:
  assumes "number_end rest"
  shows "parse_number (CHR ''0'' # rest) = Some (0, rest)"
proof -
  have i: "parse_int_part (''0'' @ rest) = Some (digits_value 10 ''0'', rest)"
    using number_end_facts(1) [OF assms]
    by (intro parse_int_part_digits) (simp_all add: is_digit_0)
  have z0: "digits_value 10 ''0'' = 0"
    by (simp add: digits_value_def digit_of_0)
  have "parse_unsigned (''0'' @ rest) = Some (0, rest)"
    using i z0 number_end_facts [OF assms]
    by (simp add: parse_unsigned_def parse_frac_part_none parse_exp_part_none)
  then show ?thesis
    by (simp add: parse_number_def)
qed

lemma parse_number_toString:
  assumes "js_number r" "number_end rest"
  shows "parse_number (Number_toString r @ rest) = Some (r, rest)"
proof (cases "r = 0")
  case True
  with assms(2) show ?thesis
    by (simp add: Number_toString_def parse_number_zero)
next
  case False
  define a where "a = \<bar>r\<bar>"
  define f where "f = decimal_places a"
  define M where "M = nat \<lfloor>a * 10 ^ f\<rfloor>"
  define z where "z = trailing_zeros M"
  define m where "m = M div 10 ^ z"
  define n where "n = int (length (show_nat m)) + int z - int f"
  have a0: "0 < a" using False by (simp add: a_def)
  have exact: "a * 10 ^ f = of_int \<lfloor>a * 10 ^ f\<rfloor>"
    using assms(1) by (simp add: js_number_def a_def f_def Let_def)
  have nonneg: "0 \<le> \<lfloor>a * 10 ^ f\<rfloor>"
    using a0 by simp
  have aM: "a * 10 ^ f = of_nat M"
    using exact nonneg by (simp add: M_def)
  have "0 < a * 10 ^ f" using a0 by simp
  then have M0: "0 < M"
    unfolding aM by simp
  have Mm: "M = m * 10 ^ z"
    using trailing_zeros_dvd [of M] by (simp add: m_def z_def)
  with M0 have m0: "0 < m"
    by (cases m) auto
  have val: "of_nat m * 10 powi (n - int (length (show_nat m))) = a"
  proof -
    have "of_nat m * (10::rat) powi (n - int (length (show_nat m))) = of_nat m * 10 powi (int z - int f)"
      by (simp add: n_def)
    also have "\<dots> = of_nat m * (10 ^ z * 10 powi (- int f))"
      by (simp add: power_int_diff power_int_minus field_simps)
    also have "\<dots> = of_nat M * 10 powi (- int f)"
      by (simp add: Mm)
    also have "\<dots> = a * 10 ^ f * 10 powi (- int f)"
      by (simp add: aM)
    also have "\<dots> = a"
      by (simp add: power_int_minus)
    finally show ?thesis .
  qed
  obtain c cs where hd: "format_decimal (show_nat m) n = c # cs" "is_digit c"
    using format_decimal_hd [OF m0] by blast
  have "parse_number ((if r < 0 then ''-'' else []) @ format_decimal (show_nat m) n @ rest) =
          Some (if r < 0 then - a else a, rest)"
    using parse_number_signed [OF hd(2), of "r < 0" "cs @ rest"]
          parse_unsigned_format [OF m0 assms(2), of n] val
    by (simp add: hd(1))
  moreover have "(if r < 0 then - a else a) = r"
    by (simp add: a_def)
  moreover have "Number_toString r = (if r < 0 then ''-'' else []) @ format_decimal (show_nat m) n"
    using False by (simp add: Number_toString_def Let_def a_def f_def M_def z_def m_def n_def)
  ultimately show ?thesis
    by simp
qed

subsection \<open>Strings\<close>

lemma char_of_nat_eq: "of_char c = (n::nat) \<Longrightarrow> c = char_of n"
  by (metis char_of_char)

lemma char_eqI: "of_char c = (of_char d :: nat) \<Longrightarrow> c = d"
  by simp

lemma special_chars:
  "of_char dquote = (34::nat)" "of_char bslash = (92::nat)"
  by (simp_all add: dquote_def bslash_def)

lemma char_cases:
  "of_char c = (8::nat) \<Longrightarrow> c = CHR 0x08"
  "of_char c = (9::nat) \<Longrightarrow> c = CHR 0x09"
  "of_char c = (10::nat) \<Longrightarrow> c = CHR 0x0A"
  "of_char c = (12::nat) \<Longrightarrow> c = CHR 0x0C"
  "of_char c = (13::nat) \<Longrightarrow> c = CHR 0x0D"
  "of_char c = (34::nat) \<Longrightarrow> c = dquote"
  "of_char c = (92::nat) \<Longrightarrow> c = bslash"
  by (rule char_eqI, simp add: dquote_def bslash_def)+

lemma unescape_simps:
  "unescape CHR ''b'' = Some (CHR 0x08)" "unescape CHR ''t'' = Some (CHR 0x09)"
  "unescape CHR ''n'' = Some (CHR 0x0A)" "unescape CHR ''f'' = Some (CHR 0x0C)"
  "unescape CHR ''r'' = Some (CHR 0x0D)" "unescape dquote = Some dquote"
  "unescape bslash = Some bslash"
  by (simp_all add: unescape_def dquote_def bslash_def)

lemma specials_distinct:
  "bslash \<noteq> dquote" "CHR ''u'' \<noteq> dquote" "CHR ''b'' \<noteq> CHR ''u''" "CHR ''t'' \<noteq> CHR ''u''"
  "CHR ''n'' \<noteq> CHR ''u''" "CHR ''f'' \<noteq> CHR ''u''" "CHR ''r'' \<noteq> CHR ''u''"
  "dquote \<noteq> CHR ''u''" "bslash \<noteq> CHR ''u''"
  by (simp_all add: dquote_def bslash_def)

lemma parse_chars_escape:
  "e \<noteq> CHR ''u'' \<Longrightarrow> unescape e = Some ch \<Longrightarrow>
     parse_chars (bslash # e # after) acc = parse_chars after (acc @ [ch])"
  by (simp add: specials_distinct)

lemma parse_chars_plain:
  "c \<noteq> dquote \<Longrightarrow> c \<noteq> bslash \<Longrightarrow> \<not> (of_char c :: nat) < 32 \<Longrightarrow>
     parse_chars (c # after) acc = parse_chars after (acc @ [c])"
  by simp

lemma parse_chars_unicode:
  assumes "(of_char c :: nat) < 32"
  shows "parse_chars (unicode_escape (of_char c) @ after) acc = parse_chars after (acc @ [c])"
proof -
  let ?n = "of_char c :: nat"
  have d: "?n div 4096 mod 16 = 0" "?n div 256 mod 16 = 0" "?n div 16 mod 16 = ?n div 16"
    using assms by simp_all
  have lt: "?n div 16 < 16" "?n mod 16 < 16"
    using assms by simp_all
  have z: "digit_char 0 = CHR ''0''"
    by (simp add: digit_char_def)
  have hex: "list_all is_hex [CHR ''0'', CHR ''0'', digit_char (?n div 16), digit_char (?n mod 16)]"
    using is_hex_digit_char [OF lt(1)] is_hex_digit_char [OF lt(2)] is_hex_digit_char [of 0]
    by (simp add: z)
  have "digits_value 16 [CHR ''0'', CHR ''0'', digit_char (?n div 16), digit_char (?n mod 16)] =
          ?n div 16 * 16 + ?n mod 16"
    using digit_of_digit_char [OF lt(1)] digit_of_digit_char [OF lt(2)]
    by (simp add: digits_value_def digit_of_0)
  then have v: "digits_value 16 [CHR ''0'', CHR ''0'', digit_char (?n div 16), digit_char (?n mod 16)] = ?n"
    by simp
  have u: "utf8_encode ?n = [c]"
    using assms by (simp add: utf8_encode_def)
  show ?thesis
    using hex v u
    by (simp add: unicode_escape_def d z specials_distinct)
qed

lemma parse_chars_quote_char:
  "parse_chars (quote_char c @ after) acc = parse_chars after (acc @ [c])"
proof -
  let ?n = "of_char c :: nat"
  consider "?n = 8" | "?n = 9" | "?n = 10" | "?n = 12" | "?n = 13" | "?n = 34" | "?n = 92"
    | "?n \<notin> {8, 9, 10, 12, 13, 34, 92}" "?n < 32"
    | "?n \<notin> {8, 9, 10, 12, 13, 34, 92}" "\<not> ?n < 32"
    by auto
  then show ?thesis
  proof cases
    case 9
    then show ?thesis
      using parse_chars_plain [of c after acc] special_chars
      by (auto simp: quote_char_def)
  next
    case 8
    then show ?thesis
      using parse_chars_unicode [of c after acc]
      by (simp add: quote_char_def)
  qed (auto simp: quote_char_def Let_def parse_chars_escape unescape_simps specials_distinct
         dest: char_cases simp del: parse_chars.simps)
qed

lemma parse_chars_quoted:
  "parse_chars (concat (map quote_char s) @ dquote # rest) acc = Some (acc @ s, rest)"
  by (induction s arbitrary: acc) (simp_all add: parse_chars_quote_char)

subsection \<open>Values\<close>

lemma not_ws_chars:
  "\<not> is_json_ws CHR ''[''" "\<not> is_json_ws CHR '']''" "\<not> is_json_ws CHR ''{''" "\<not> is_json_ws CHR ''}''"
  "\<not> is_json_ws CHR '',''" "\<not> is_json_ws CHR '':''" "\<not> is_json_ws dquote" "\<not> is_json_ws CHR ''-''"
  "\<not> is_json_ws CHR ''n''" "\<not> is_json_ws CHR ''t''" "\<not> is_json_ws CHR ''f''"
  by (simp_all add: is_json_ws_def dquote_def)

lemma dquote_distinct:
  "dquote \<noteq> CHR ''[''" "dquote \<noteq> CHR ''{''" "CHR '':'' \<noteq> dquote" "CHR '','' \<noteq> dquote"
  by (simp_all add: dquote_def)

lemma digit_not_ws: "is_digit c \<Longrightarrow> \<not> is_json_ws c"
  by (auto simp: is_json_ws_def is_digit_def radix_digit_def digit_of_def)

lemma skip_ws_Cons: "\<not> is_json_ws c \<Longrightarrow> skip_ws (c # cs) = c # cs"
  by (simp add: skip_ws_def)

lemma skip_ws_Nil: "skip_ws [] = []"
  by (simp add: skip_ws_def)

lemma number_end_chars:
  "number_end []" "number_end (CHR '','' # r)" "number_end (CHR '']'' # r)" "number_end (CHR ''}'' # r)"
  by (simp_all add: number_end_def not_digit_chars)

lemma Number_toString_hd:
  assumes "js_number r"
  shows "\<exists>c cs. Number_toString r = c # cs \<and> (is_digit c \<or> c = CHR ''-'')"
proof (cases "r = 0")
  case True
  then show ?thesis
    by (simp add: Number_toString_def is_digit_0)
next
  case False
  define m where "m = nat \<lfloor>\<bar>r\<bar> * 10 ^ decimal_places \<bar>r\<bar>\<rfloor> div
                       10 ^ trailing_zeros (nat \<lfloor>\<bar>r\<bar> * 10 ^ decimal_places \<bar>r\<bar>\<rfloor>)"
  have exact: "\<bar>r\<bar> * 10 ^ decimal_places \<bar>r\<bar> = of_int \<lfloor>\<bar>r\<bar> * 10 ^ decimal_places \<bar>r\<bar>\<rfloor>"
    using assms by (simp add: js_number_def Let_def)
  have "0 < \<bar>r\<bar> * 10 ^ decimal_places \<bar>r\<bar>"
    using False by simp
  then have "0 < \<lfloor>\<bar>r\<bar> * 10 ^ decimal_places \<bar>r\<bar>\<rfloor>"
    by (subst (asm) exact) simp
  then have M0: "0 < nat \<lfloor>\<bar>r\<bar> * 10 ^ decimal_places \<bar>r\<bar>\<rfloor>"
    by simp
  have "nat \<lfloor>\<bar>r\<bar> * 10 ^ decimal_places \<bar>r\<bar>\<rfloor> =
          m * 10 ^ trailing_zeros (nat \<lfloor>\<bar>r\<bar> * 10 ^ decimal_places \<bar>r\<bar>\<rfloor>)"
    using trailing_zeros_dvd by (simp add: m_def)
  with M0 have m0: "0 < m"
    by (cases m) auto
  define n where "n = int (length (show_nat m)) +
      int (trailing_zeros (nat \<lfloor>\<bar>r\<bar> * 10 ^ decimal_places \<bar>r\<bar>\<rfloor>)) - int (decimal_places \<bar>r\<bar>)"
  from format_decimal_hd [OF m0, of n] obtain c cs where
    f: "format_decimal (show_nat m) n = c # cs" and c: "is_digit c"
    by blast
  have "Number_toString r = (if r < 0 then ''-'' else []) @ c # cs"
    using False f by (simp add: Number_toString_def Let_def m_def n_def)
  with c show ?thesis
    by (cases "r < 0") auto
qed

lemma parse_value_number:
  assumes "js_number r" "number_end rest"
  shows "parse_value (Suc n) (Number_toString r @ rest) = Some (JNum r, rest)"
proof -
  from Number_toString_hd [OF assms(1)] obtain c cs where
    t: "Number_toString r = c # cs" and c: "is_digit c \<or> c = CHR ''-''"
    by blast
  from c have nws: "\<not> is_json_ws c"
    using digit_not_ws not_ws_chars by auto
  from c have ne: "c \<noteq> CHR ''[''" "c \<noteq> CHR ''{''" "c \<noteq> dquote" "c \<noteq> CHR ''t''" "c \<noteq> CHR ''f''"
    "c \<noteq> CHR ''n''"
    by (auto simp: is_digit_def radix_digit_def digit_of_def dquote_def)
  have p: "parse_number (c # cs @ rest) = Some (r, rest)"
    using parse_number_toString [OF assms] by (simp add: t)
  show ?thesis
    using nws ne p by (simp add: t skip_ws_Cons)
qed

lemma parse_value_string:
  "parse_value (Suc n) (QuoteJSONString s @ rest) = Some (JStr s, rest)"
  using parse_chars_quoted [of s rest "[]"]
  by (simp add: QuoteJSONString_def skip_ws_Cons not_ws_chars dquote_distinct)

lemma parse_value_literals:
  "parse_value (Suc n) (''null'' @ rest) = Some (JNull, rest)"
  "parse_value (Suc n) (''true'' @ rest) = Some (JBool True, rest)"
  "parse_value (Suc n) (''false'' @ rest) = Some (JBool False, rest)"
  by (simp_all add: skip_ws_Cons not_ws_chars dquote_def)


lemma stringify_hd:
  assumes "wf_json v"
  shows "\<exists>c cs. JSON_stringify v = c # cs \<and> \<not> is_json_ws c \<and> c \<noteq> CHR '']''"
proof (cases v)
  case (JNum r)
  with assms Number_toString_hd [of r] obtain c cs where
    "Number_toString r = c # cs" "is_digit c \<or> c = CHR ''-''"
    by auto
  with JNum show ?thesis
    using digit_not_ws not_ws_chars not_digit_chars by auto
qed (auto simp: not_ws_chars QuoteJSONString_def dquote_def is_json_ws_def)

lemma reads_backD:
  "reads_back v \<Longrightarrow> number_end rest \<Longrightarrow> length (JSON_stringify v) \<le> n \<Longrightarrow>
     parse_value n (JSON_stringify v @ rest) = Some (v, rest)"
  by (simp add: reads_back_def)

lemma parse_elements_stringify:
  assumes "xs \<noteq> []" "\<And>x. x \<in> set xs \<Longrightarrow> reads_back x"
    and "length (stringify_elems xs) < n"
  shows "parse_elements n (stringify_elems xs @ CHR '']'' # rest) acc = Some (JArr (acc @ xs), rest)"
  using assms
proof (induction xs arbitrary: n acc)
  case Nil
  then show ?case by simp
next
  case (Cons x xs)
  from Cons.prems(3) obtain n' where n: "n = Suc n'"
    by (cases n) auto
  have rb: "reads_back x"
    using Cons.prems(2) by simp
  show ?case
  proof (cases "xs = []")
    case True
    have "parse_value n' (JSON_stringify x @ CHR '']'' # rest) = Some (x, CHR '']'' # rest)"
      using rb number_end_chars(3) Cons.prems(3) True
      by (intro reads_backD) (simp_all add: n)
    with True show ?thesis
      by (simp add: n skip_ws_Cons not_ws_chars)
  next
    case False
    let ?after = "CHR '','' # stringify_elems xs @ CHR '']'' # rest"
    have "parse_value n' (JSON_stringify x @ ?after) = Some (x, ?after)"
      using rb number_end_chars(2) Cons.prems(3) False
      by (intro reads_backD) (simp_all add: n)
    moreover have "parse_elements n' (stringify_elems xs @ CHR '']'' # rest) (acc @ [x]) =
                     Some (JArr ((acc @ [x]) @ xs), rest)"
      using False Cons.prems(2,3)
      by (intro Cons.IH) (simp_all add: n)
    ultimately show ?thesis
      using False by (simp add: n skip_ws_Cons not_ws_chars)
  qed
qed

lemma update_new_key: "k \<notin> fst ` set al \<Longrightarrow> AList.update k v al = al @ [(k, v)]"
  by (induction al) auto

lemma obj_put_new:
  "\<not> is_index k \<Longrightarrow> k \<notin> fst ` set acc \<Longrightarrow> obj_put k v acc = acc @ [(k, v)]"
  by (simp add: obj_put_def update_new_key)

lemma QuoteJSONString_length: "2 \<le> length (QuoteJSONString k)"
  by (simp add: QuoteJSONString_def)

lemma parse_members_stringify:
  assumes "kvs \<noteq> []" "\<And>kv. kv \<in> set kvs \<Longrightarrow> reads_back (snd kv)"
    and "length (stringify_props kvs) < n"
    and "distinct (map fst kvs)" "\<And>kv. kv \<in> set kvs \<Longrightarrow> \<not> is_index (fst kv)"
    and "fst ` set kvs \<inter> fst ` set acc = {}"
  shows "parse_members n (stringify_props kvs @ CHR ''}'' # rest) acc = Some (JObj (acc @ kvs), rest)"
  using assms
proof (induction kvs arbitrary: n acc)
  case Nil
  then show ?case by simp
next
  case (Cons kv kvs)
  obtain k v where kv: "kv = (k, v)" by (cases kv)
  from Cons.prems(3) obtain n' where n: "n = Suc n'"
    by (cases n) auto
  have rb: "reads_back v"
    using Cons.prems(2) [of kv] kv by simp
  have put: "obj_put k v acc = acc @ [(k, v)]"
    using Cons.prems(5) [of kv] Cons.prems(6) kv by (intro obj_put_new) auto
  let ?after = "(if kvs = [] then [] else CHR '','' # stringify_props kvs) @ CHR ''}'' # rest"
  have key: "parse_chars (concat (map quote_char k) @ dquote # CHR '':'' # JSON_stringify v @ ?after) [] =
               Some (k, CHR '':'' # JSON_stringify v @ ?after)"
    using parse_chars_quoted [of k _ "[]"] by simp
  have shape: "stringify_props (kv # kvs) @ CHR ''}'' # rest =
                dquote # concat (map quote_char k) @ dquote # CHR '':'' # JSON_stringify v @ ?after"
    by (simp add: kv QuoteJSONString_def)
  have len: "length (JSON_stringify v) \<le> n'"
    using Cons.prems(3) QuoteJSONString_length [of k] by (simp add: n kv)
  show ?case
  proof (cases "kvs = []")
    case True
    have "parse_value n' (JSON_stringify v @ CHR ''}'' # rest) = Some (v, CHR ''}'' # rest)"
      using rb number_end_chars(4) len by (rule reads_backD)
    with True key put show ?thesis
      unfolding shape
      by (simp add: n skip_ws_Cons not_ws_chars dquote_distinct kv)
  next
    case False
    let ?tail = "CHR '','' # stringify_props kvs @ CHR ''}'' # rest"
    have "parse_value n' (JSON_stringify v @ ?tail) = Some (v, ?tail)"
      using rb number_end_chars(2) len by (rule reads_backD)
    moreover have "parse_members n' (stringify_props kvs @ CHR ''}'' # rest) (acc @ [(k, v)]) =
                     Some (JObj ((acc @ [(k, v)]) @ kvs), rest)"
    proof (rule Cons.IH)
      show "kvs \<noteq> []" by (rule False)
      show "\<And>kv. kv \<in> set kvs \<Longrightarrow> reads_back (snd kv)"
        using Cons.prems(2) by simp
      show "length (stringify_props kvs) < n'"
        using Cons.prems(3) False by (simp add: n kv)
      show "distinct (map fst kvs)"
        using Cons.prems(4) by simp
      show "\<And>kv. kv \<in> set kvs \<Longrightarrow> \<not> is_index (fst kv)"
        using Cons.prems(5) by simp
      show "fst ` set kvs \<inter> fst ` set (acc @ [(k, v)]) = {}"
        using Cons.prems(4,6) by (auto simp: kv)
    qed
    ultimately show ?thesis
      using False key put
      unfolding shape
      by (simp add: n skip_ws_Cons not_ws_chars dquote_distinct kv)
  qed
qed


lemma stringify_elems_hd:
  assumes "xs \<noteq> []" "list_all wf_json xs"
  shows "\<exists>c cs. stringify_elems xs = c # cs \<and> \<not> is_json_ws c \<and> c \<noteq> CHR '']''"
proof -
  from assms obtain x xs' where xs: "xs = x # xs'" and "wf_json x"
    by (cases xs) auto
  from stringify_hd [OF this(2)] show ?thesis
    by (auto simp: xs)
qed

lemma stringify_props_hd:
  assumes "kvs \<noteq> []"
  shows "\<exists>cs. stringify_props kvs = dquote # cs"
  using assms by (cases kvs) (auto simp: QuoteJSONString_def)

lemma wf_json_reads_back: "wf_json v \<Longrightarrow> reads_back v"
proof (induction v)
  case JNull
  show ?case
    unfolding reads_back_def
  proof (intro allI impI)
    fix n rest
    assume "length (JSON_stringify JNull) \<le> n"
    then obtain n' where "n = Suc n'" by (cases n) auto
    then show "parse_value n (JSON_stringify JNull @ rest) = Some (JNull, rest)"
      using parse_value_literals(1) [of n' rest] by simp
  qed
next
  case (JBool b)
  show ?case
    unfolding reads_back_def
  proof (intro allI impI)
    fix n rest
    assume "length (JSON_stringify (JBool b)) \<le> n"
    then obtain n' where "n = Suc n'" by (cases n; cases b) auto
    then show "parse_value n (JSON_stringify (JBool b) @ rest) = Some (JBool b, rest)"
      using parse_value_literals(2,3) [of n' rest] by (cases b) simp_all
  qed
next
  case (JNum r)
  then have js: "js_number r" by simp
  show ?case
    unfolding reads_back_def
  proof (intro allI impI)
    fix n rest
    assume e: "number_end rest" and "length (JSON_stringify (JNum r)) \<le> n"
    moreover from Number_toString_hd [OF js] have "0 < length (Number_toString r)" by auto
    ultimately obtain n' where "n = Suc n'" by (cases n) auto
    then show "parse_value n (JSON_stringify (JNum r) @ rest) = Some (JNum r, rest)"
      using parse_value_number [OF js e, of n'] by simp
  qed
next
  case (JStr s)
  show ?case
    unfolding reads_back_def
  proof (intro allI impI)
    fix n rest
    assume "length (JSON_stringify (JStr s)) \<le> n"
    then obtain n' where "n = Suc n'"
      using QuoteJSONString_length [of s] by (cases n) auto
    then show "parse_value n (JSON_stringify (JStr s) @ rest) = Some (JStr s, rest)"
      using parse_value_string [of n' s rest] by simp
  qed
next
  case (JArr xs)
  from JArr.prems have wf: "list_all wf_json xs" by simp
  then have rb: "\<And>x. x \<in> set xs \<Longrightarrow> reads_back x"
    using JArr.IH by (simp add: list_all_iff)
  show ?case
    unfolding reads_back_def
  proof (intro allI impI)
    fix n rest
    assume len: "length (JSON_stringify (JArr xs)) \<le> n"
    then obtain n' where n: "n = Suc n'" by (cases n) auto
    show "parse_value n (JSON_stringify (JArr xs) @ rest) = Some (JArr xs, rest)"
    proof (cases "xs = []")
      case True
      then show ?thesis
        by (simp add: n skip_ws_Cons not_ws_chars)
    next
      case False
      from stringify_elems_hd [OF False wf] obtain c cs where
        hd: "stringify_elems xs = c # cs" "\<not> is_json_ws c" "c \<noteq> CHR '']''"
        by blast
      have "parse_elements n' (stringify_elems xs @ CHR '']'' # rest) [] = Some (JArr ([] @ xs), rest)"
        using False rb len by (intro parse_elements_stringify) (simp_all add: n)
      then show ?thesis
        using hd(2,3) by (simp add: n skip_ws_Cons not_ws_chars hd(1))
    qed
  qed
next
  case (JObj kvs)
  from JObj.prems have d: "distinct (map fst kvs)"
    and ni: "\<And>kv. kv \<in> set kvs \<Longrightarrow> \<not> is_index (fst kv)"
    and wf: "\<And>kv. kv \<in> set kvs \<Longrightarrow> wf_json (snd kv)"
    by (simp_all add: list_all_iff)
  have rb: "\<And>kv. kv \<in> set kvs \<Longrightarrow> reads_back (snd kv)"
  proof -
    fix kv assume m: "kv \<in> set kvs"
    obtain k v where kv: "kv = (k, v)" by (cases kv)
    with m have "v \<in> Basic_BNFs.snds kv" by simp
    from JObj.IH [OF m this] wf [OF m] show "reads_back (snd kv)"
      by (simp add: kv)
  qed
  show ?case
    unfolding reads_back_def
  proof (intro allI impI)
    fix n rest
    assume len: "length (JSON_stringify (JObj kvs)) \<le> n"
    then obtain n' where n: "n = Suc n'" by (cases n) auto
    show "parse_value n (JSON_stringify (JObj kvs) @ rest) = Some (JObj kvs, rest)"
    proof (cases "kvs = []")
      case True
      then show ?thesis
        by (simp add: n skip_ws_Cons not_ws_chars)
    next
      case False
      from stringify_props_hd [OF False] obtain cs where hd: "stringify_props kvs = dquote # cs"
        by blast
      have "parse_members n' (stringify_props kvs @ CHR ''}'' # rest) [] = Some (JObj ([] @ kvs), rest)"
        using False rb _ d ni
        by (rule parse_members_stringify) (use len in \<open>simp_all add: n\<close>)
      moreover have "dquote \<noteq> CHR ''}''"
        by (simp add: dquote_def)
      ultimately show ?thesis
        by (simp add: n skip_ws_Cons not_ws_chars hd)
    qed
  qed
qed

lemma JSON_round_trip: "wf_json v \<Longrightarrow> JSON_parse (JSON_stringify v) = Some v"
proof -
  assume "wf_json v"
  then have "reads_back v" by (rule wf_json_reads_back)
  from reads_backD [OF this number_end_chars(1), of "2 * length (JSON_stringify v) + 2"]
  show ?thesis
    by (simp add: JSON_parse_def skip_ws_Nil)
qed


section \<open>Saving and loading the cart\<close>

text \<open>
  The array that \<open>saveCart\<close> writes holds values that JavaScript keeps as written, and
  it determines the cart.
\<close>

lemma frac_places_integer: "a = of_int \<lfloor>a\<rfloor> \<Longrightarrow> frac_places fuel a = 0"
  by (cases fuel) simp_all

lemma js_number_of_int: "js_number (of_int n)"
proof -
  have i: "\<bar>rat_of_int n\<bar> = of_int \<lfloor>\<bar>rat_of_int n\<bar>\<rfloor>"
    by (simp flip: of_int_abs)
  then have "decimal_places \<bar>rat_of_int n\<bar> = 0"
    unfolding decimal_places_def by (rule frac_places_integer)
  with i show ?thesis
    by (simp add: js_number_def Let_def)
qed

text \<open>Every decimal fraction is such a number: the fuel of \<open>decimal_places\<close> is enough.\<close>

lemma is_int_floor: "(a :: rat) = of_int z \<Longrightarrow> a = of_int \<lfloor>a\<rfloor>"
  by simp

lemma frac_places_exact:
  "a * 10 ^ k = of_int \<lfloor>a * 10 ^ k\<rfloor> \<Longrightarrow> k \<le> fuel \<Longrightarrow>
     a * 10 ^ frac_places fuel a = of_int \<lfloor>a * 10 ^ frac_places fuel a\<rfloor>"
proof (induction fuel arbitrary: a k)
  case 0
  then show ?case by simp
next
  case (Suc fuel)
  show ?case
  proof (cases "a = of_int \<lfloor>a\<rfloor>")
    case True
    then show ?thesis by simp
  next
    case False
    with Suc.prems(1) have "k \<noteq> 0"
      by (cases k) auto
    then obtain j where k: "k = Suc j"
      by (cases k) auto
    from Suc.prems have "a * 10 * 10 ^ j = of_int \<lfloor>a * 10 * 10 ^ j\<rfloor>" "j \<le> fuel"
      by (simp_all add: k mult.assoc)
    from Suc.IH [OF this] False show ?thesis
      by (simp add: mult.assoc)
  qed
qed

lemma dvd_5_cases: "(d :: nat) dvd 5 \<Longrightarrow> d = 1 \<or> d = 5"
proof -
  assume d: "d dvd 5"
  then have "d \<le> 5" by (rule dvd_imp_le) simp
  then consider "d = 0" | "d = 1" | "d = 2" | "d = 3" | "d = 4" | "d = 5"
    by linarith
  then show ?thesis
    using d by cases simp_all
qed

lemma coprime_10: "odd (q :: nat) \<Longrightarrow> \<not> 5 dvd q \<Longrightarrow> coprime q 10"
proof -
  assume o: "odd q" and f: "\<not> 5 dvd q"
  have "gcd q 5 = 1 \<or> gcd q 5 = 5"
    by (rule dvd_5_cases) simp
  with f have "coprime q 5"
    by (metis gcd_dvd1 coprime_iff_gcd_eq_1)
  moreover from o have "coprime q 2"
    by simp
  ultimately have "coprime q (2 * 5)"
    by (simp only: coprime_mult_right_iff)
  then show ?thesis by simp
qed

lemma dvd_pow10: "0 < (q :: nat) \<Longrightarrow> q dvd 10 ^ K \<Longrightarrow> q dvd 10 ^ (q - 1)"
proof (induction q rule: less_induct)
  case (less q)
  show ?case
  proof (cases "q = 1")
    case True
    then show ?thesis by simp
  next
    case False
    have "even q \<or> 5 dvd q"
    proof (rule ccontr)
      assume "\<not> (even q \<or> 5 dvd q)"
      then have "coprime q 10" by (simp add: coprime_10)
      then have "coprime q (10 ^ K)" by simp
      with less.prems(2) have "q = 1"
        by (metis coprime_absorb_left is_unit_gcd nat_dvd_1_iff_1 coprime_iff_gcd_eq_1 gcd_nat.absorb_iff1)
      with False show False by simp
    qed
    then obtain p q' where q: "q = p * q'" and p: "p = 2 \<or> p = 5"
      by (auto elim: dvdE)
    from less.prems(1) q p have q': "0 < q'" "q' < q"
      by auto
    from less.prems(2) have "q' dvd 10 ^ K"
      unfolding q by (rule dvd_mult_right)
    from less.IH [OF q'(2) q'(1) this] have 1: "q' dvd 10 ^ (q' - 1)" .
    from p have "p dvd 10" by auto
    from this 1 have "p * q' dvd 10 * 10 ^ (q' - 1)"
      by (rule mult_dvd_mono)
    then have "q dvd 10 ^ q'"
      using q'(1) by (simp add: q flip: power_Suc)
    moreover have "(10 :: nat) ^ q' dvd 10 ^ (q - 1)"
      using q'(2) by (intro le_imp_power_dvd) simp
    ultimately show ?thesis
      by (rule dvd_trans)
  qed
qed

lemma js_number_decimal: "js_number (of_int m / 10 ^ k)"
proof -
  define a :: rat where "a = \<bar>of_int m / 10 ^ k\<bar>"
  obtain p q where pq: "quotient_of a = (p, q)"
    by (cases "quotient_of a")
  then have q: "0 < q" and c: "coprime p q" and a: "a = of_int p / of_int q"
    by (simp_all add: quotient_of_denom_pos quotient_of_coprime quotient_of_div)
  have "a * 10 ^ k = of_int \<bar>m\<bar>"
    by (simp add: a_def abs_divide)
  with q have "rat_of_int (p * 10 ^ k) = of_int (\<bar>m\<bar> * q)"
    by (simp add: a field_simps)
  then have "p * 10 ^ k = \<bar>m\<bar> * q"
    by (simp only: of_int_eq_iff)
  then have "q dvd p * 10 ^ k"
    by simp
  with c have "q dvd 10 ^ k"
    by (simp add: coprime_dvd_mult_right_iff coprime_commute)
  then have "nat q dvd 10 ^ k"
    using q by (metis nat_dvd_iff of_nat_numeral of_nat_power less_imp_le)
  with q have "nat q dvd 10 ^ (nat q - 1)"
    by (intro dvd_pow10) simp_all
  then obtain d where d: "10 ^ (nat q - 1) = nat q * d"
    by (auto elim: dvdE)
  then have "rat_of_int (10 ^ (nat q - 1)) = of_int (q * int d)"
    using q by (metis int_nat_eq less_imp_le of_nat_mult of_nat_numeral of_nat_power)
  then have "a * 10 ^ (nat q - 1) = of_int (p * int d)"
    using q by (simp add: a)
  then have "a * 10 ^ (nat q - 1) = of_int \<lfloor>a * 10 ^ (nat q - 1)\<rfloor>"
    by (rule is_int_floor)
  then have "a * 10 ^ frac_places (nat q) a = of_int \<lfloor>a * 10 ^ frac_places (nat q) a\<rfloor>"
    by (rule frac_places_exact) simp
  then have "a * 10 ^ decimal_places a = of_int \<lfloor>a * 10 ^ decimal_places a\<rfloor>"
    by (simp add: pq decimal_places_def)
  then show ?thesis
    unfolding js_number_def Let_def a_def .
qed

lemma not_index_keys:
  "\<not> is_index ''_id''" "\<not> is_index ''name''" "\<not> is_index ''price''" "\<not> is_index ''image''"
  "\<not> is_index ''category''" "\<not> is_index ''description''" "\<not> is_index ''rating''"
  "\<not> is_index ''reviews''" "\<not> is_index ''badge''" "\<not> is_index ''quantity''"
  by (simp_all add: is_index_def is_digit_def radix_digit_def digit_of_def)

lemma wf_json_of_line:
  "js_number (price item) \<Longrightarrow> js_number (rating item) \<Longrightarrow> wf_json (json_of_line item)"
  by (cases "badge item")
     (simp_all add: json_of_line_def json_of_product_fields_def not_index_keys js_number_of_int)

lemma wf_json_of_cart:
  "list_all (\<lambda>item. js_number (price item) \<and> js_number (rating item)) c \<Longrightarrow>
     wf_json (json_of_cart c)"
  by (simp add: json_of_cart_def list_all_iff wf_json_of_line)

lemma json_of_line_inj: "json_of_line a = json_of_line b \<Longrightarrow> a = b"
  by (cases "badge a"; cases "badge b")
     (auto simp: json_of_line_def json_of_product_fields_def)

lemma json_of_cart_inj: "json_of_cart a = json_of_cart b \<Longrightarrow> a = b"
  unfolding json_of_cart_def
  by (simp add: inj_on_def json_of_line_inj inj_map_eq_map [unfolded inj_on_def] list.inj_map_strong)


lemma loadCart_saved_value:
  assumes "wf_json v" "truthy (Some v)"
  shows "loadCart (ls(CART_KEY \<mapsto> JSON_stringify v)) = v"
  using JSON_round_trip [OF assms(1)] assms(2)
  by (simp add: loadCart_def)

text \<open>
  Claim C8. Saving a cart and loading it again gives the cart that was saved:
  \<open>loadCart\<close> on the storage written by \<open>saveCart\<close> returns the array of the lines of the
  cart, field by field and in their order, and no other cart has that array. The prices and
  ratings are taken to have a finite decimal expansion, as every JavaScript number has; the
  other fields are strings and integers. More generally \<open>loadCart\<close> returns any array of
  such values that \<open>JSON.stringify\<close> wrote under the key of the cart.
\<close>

theorem cart_round_trip:
  "(list_all (\<lambda>item. js_number (price item) \<and> js_number (rating item)) (cart st) \<longrightarrow>
      loadCart (localStorage (saveCart st)) = json_of_cart (cart st) \<and>
      (\<forall>c. json_of_cart c = loadCart (localStorage (saveCart st)) \<longrightarrow> c = cart st)) \<and>
   (wf_json (JArr xs) \<longrightarrow> loadCart (ls(CART_KEY \<mapsto> JSON_stringify (JArr xs))) = JArr xs)"
proof (intro conjI impI allI)
  assume a: "list_all (\<lambda>item. js_number (price item) \<and> js_number (rating item)) (cart st)"
  have t: "truthy (Some (json_of_cart (cart st)))"
    by (simp add: json_of_cart_def)
  show l: "loadCart (localStorage (saveCart st)) = json_of_cart (cart st)"
    using loadCart_saved_value [OF wf_json_of_cart [OF a] t]
    by (simp add: saveCart_def)
  fix c
  assume "json_of_cart c = loadCart (localStorage (saveCart st))"
  then show "c = cart st"
    by (simp add: l json_of_cart_inj)
next
  assume "wf_json (JArr xs)"
  then show "loadCart (ls(CART_KEY \<mapsto> JSON_stringify (JArr xs))) = JArr xs"
    by (rule loadCart_saved_value) simp
qed

lemma js_number_2499: "js_number (2499 / 100)"
  by code_simp

lemma js_number_1999: "js_number (1999 / 100)"
  by code_simp

lemma js_number_9_2: "js_number (9 / 2)"
  by code_simp

lemma js_number_4: "js_number 4"
  using js_number_of_int [of 4] by simp

lemmas js_number_samples = js_number_2499 js_number_1999 js_number_9_2 js_number_4


lemma rating_samples: "rating headphones = 9 / 2" "rating mug = 4"
  by (simp_all add: headphones_def mug_def)

theorem cart_round_trip_witness:
  "cart (foldl apply_op page session) = [new_line headphones 1, new_line mug 3] \<and>
   loadCart (localStorage (saveCart (foldl apply_op page session))) =
     json_of_cart [new_line headphones 1, new_line mug 3] \<and>
   loadCart (Map.empty(CART_KEY \<mapsto> JSON_stringify (JArr []))) = JArr []"
proof -
  let ?st = "foldl apply_op page session"
  have a: "list_all (\<lambda>item. js_number (price item) \<and> js_number (rating item)) (cart ?st)"
    unfolding cart_session
    by (simp add: new_line_def headphones_fields mug_fields rating_samples js_number_samples)
  have w: "wf_json (JArr [])"
    by simp
  have 1: "loadCart (localStorage (saveCart ?st)) = json_of_cart (cart ?st)"
    using cart_round_trip [of ?st "[]" Map.empty] a by blast
  have 2: "loadCart (Map.empty(CART_KEY \<mapsto> JSON_stringify (JArr []))) = JArr []"
    using cart_round_trip [of ?st "[]" Map.empty] w by blast
  from 1 2 cart_session show ?thesis
    by (simp only: simp_thms)
qed

end
